theory Spec2Isabelle
  imports Complex_Main "HOL-Library.Multiset"
begin

section \<open>Numbers, tensors and exceptions\<close>

text \<open>
  The embedding follows \<^verbatim>\<open>src/model_wrapper.py\<close>: the class
  \<^verbatim>\<open>EndpointDistanceMetricRawTorch\<close> and the method
  \<^verbatim>\<open>ModelWrapper.validation_epoch_end\<close>.

  Numbers. The accumulators \<^verbatim>\<open>per_class_bucketed_error_sum\<close> and
  \<^verbatim>\<open>total_forward_time\<close> have dtype \<^verbatim>\<open>torch.float\<close>, IEEE binary32: every
  addition into them is rounded. The model takes the arithmetic of these additions as a
  parameter \<open>ops\<close>, with two instances below: \<open>exact_ops\<close>, which adds reals
  exactly, and \<open>binary32_ops\<close>, which rounds each sum to the nearest binary32 number.
  A statement about every \<open>ops\<close> holds for both. The values computed for one point
  (norms, the difference of the two flows, the product with the scale factor) are the
  exact ones: rounding them changes the speed and the error of a point, not what the
  source does with them. A tensor of dtype \<^verbatim>\<open>torch.long\<close> holds values of type
  \<open>int\<close>; the wrap-around of 64-bit counters at \<open>2^63\<close> is out of reach of a
  validation run and is not modelled. The quotient computed in
  \<^verbatim>\<open>validation_epoch_end\<close>, which can be an infinity or not-a-number, has the type
  \<open>torch_float\<close> below.

  Tensors. The point, flow and ground-truth arguments of \<^verbatim>\<open>update_class_error\<close> are
  two-dimensional: such a tensor is its list of rows together with its number of columns
  (which a tensor with no rows still has). The two accumulators of shape
  \<open>(2, classes, speed buckets, error buckets)\<close> are modelled by their cell functions
  from a four-component index to the value of the cell; the loops of
  \<^verbatim>\<open>update_class_error\<close> address only cells inside the allocated shape (lemma
  \<open>update_class_error_inside_shape\<close>).
\<close>

type_synonym idx = "nat \<times> nat \<times> nat \<times> nat"

record tensor2 =
  ncols :: nat
  rows :: "real list list"

definition shape :: "tensor2 \<Rightarrow> nat \<times> nat" where
  "shape t = (length (rows t), ncols t)"

text \<open>The exceptions the modelled code raises: a failed \<^verbatim>\<open>assert\<close> and a failed
  dictionary lookup. The specification calls them \<open>ShapeMismatch\<close> and
  \<open>UnknownCategory\<close>.\<close>

datatype error = AssertionError | KeyError

abbreviation ShapeMismatch :: error where
  "ShapeMismatch \<equiv> AssertionError"

abbreviation UnknownCategory :: error where
  "UnknownCategory \<equiv> KeyError"

text \<open>The result of a division of tensors: dividing by zero raises nothing, it yields an
  infinity or not-a-number.\<close>

datatype torch_float = Finite real | PosInf | NegInf | NaN

definition torch_div :: "real \<Rightarrow> int \<Rightarrow> torch_float" where
  "torch_div x n =
     (if n \<noteq> 0 then Finite (x / of_int n)
      else if x = 0 then NaN
      else if 0 < x then PosInf
      else NegInf)"

text \<open>The arithmetic of the float accumulators: the sum of two numbers (\<^verbatim>\<open>+=\<close>, and
  \<^verbatim>\<open>torch.sum\<close> over a stack of two) and the sum of the entries of a vector
  (\<^verbatim>\<open>torch.sum\<close>).\<close>

record float_ops =
  fadd :: "real \<Rightarrow> real \<Rightarrow> real"
  fsum :: "real list \<Rightarrow> real"

definition exact_ops :: float_ops where
  "exact_ops = \<lparr> fadd = (+), fsum = sum_list \<rparr>"

text \<open>Binary32: 24 significant bits, the exponent of a normal number between -126 and
  127, below that the fixed spacing \<open>2^-149\<close>; a result half-way between two neighbours
  goes to the one with the even significand. Adding zero changes nothing. Overflow to
  infinity (beyond about \<open>3.4 * 10^38\<close>) is not modelled. \<^verbatim>\<open>torch.sum\<close> adds the
  entries of a vector in an order that the source does not fix; the model adds them from
  left to right.\<close>

definition round_half_even :: "real \<Rightarrow> int" where
  "round_half_even y =
     (let f = \<lfloor>y\<rfloor>; d = y - of_int f
      in if d < 1/2 then f else if 1/2 < d then f + 1 else if even f then f else f + 1)"

definition binary32_round :: "real \<Rightarrow> real" where
  "binary32_round x =
     (if x = 0 then 0
      else let e = max \<lfloor>log 2 \<bar>x\<bar>\<rfloor> (- 126);
               u = 2 powr of_int (e - 23)
           in of_int (round_half_even (x / u)) * u)"

definition binary32_add :: "real \<Rightarrow> real \<Rightarrow> real" where
  "binary32_add x y =
     (if y = 0 then x else if x = 0 then y else binary32_round (x + y))"

definition binary32_ops :: float_ops where
  "binary32_ops = \<lparr> fadd = binary32_add, fsum = foldl binary32_add 0 \<rparr>"

text \<open>\<^verbatim>\<open>torch.norm(v, p=np.inf)\<close> and \<^verbatim>\<open>torch.norm(v, p=2)\<close> of one row.\<close>

definition norm_inf :: "real list \<Rightarrow> real" where
  "norm_inf v = fold max (map abs v) 0"

definition norm_2 :: "real list \<Rightarrow> real" where
  "norm_2 v = sqrt (sum_list (map (\<lambda>x. x\<^sup>2) v))"

section \<open>The metric object\<close>

record metric =
  class_index_to_name_map :: "nat \<rightharpoonup> string"
  class_id_to_index_map :: "int \<rightharpoonup> nat"
  speed_bucket_splits_meters_per_second :: "real list"
  endpoint_error_splits_meters :: "real list"
  per_class_bucketed_error_sum :: "idx \<Rightarrow> real"
  per_class_bucketed_error_count :: "idx \<Rightarrow> int"
  close_object_threshold_meters :: real
  per_frame_to_per_second_scale_factor :: real
  total_forward_time :: real
  total_forward_count :: int

text \<open>\<^verbatim>\<open>speed_bucket_bounds\<close> and \<^verbatim>\<open>epe_bucket_bounds\<close>: the list of consecutive
  pairs of the splits, \<^verbatim>\<open>zip(splits, splits[1:])\<close>.\<close>

definition bucket_bounds :: "real list \<Rightarrow> (real \<times> real) list" where
  "bucket_bounds splits = zip splits (drop 1 splits)"

definition speed_bucket_bounds :: "metric \<Rightarrow> (real \<times> real) list" where
  "speed_bucket_bounds self = bucket_bounds (speed_bucket_splits_meters_per_second self)"

definition epe_bucket_bounds :: "metric \<Rightarrow> (real \<times> real) list" where
  "epe_bucket_bounds self = bucket_bounds (endpoint_error_splits_meters self)"

text \<open>The constructor. The category table is a Python dictionary, read in insertion order:
  a list of pairs whose keys are distinct. \<open>index_step\<close> is the body of the loop
  that fills the two index dictionaries. The two last parameters have default values
  (\<open>None\<close> stands for an omitted argument).\<close>

definition index_step ::
  "nat \<times> int \<times> string \<Rightarrow> (nat \<rightharpoonup> string) \<times> (int \<rightharpoonup> nat) \<Rightarrow>
   (nat \<rightharpoonup> string) \<times> (int \<rightharpoonup> nat)" where
  "index_step entry maps =
     (case entry of (cls_index, (cls_id, cls_name)) \<Rightarrow>
      case maps of (by_index, by_id) \<Rightarrow>
        (by_index(cls_index \<mapsto> cls_name), by_id(cls_id \<mapsto> cls_index)))"

definition index_maps ::
  "(int \<times> string) list \<Rightarrow> (nat \<rightharpoonup> string) \<times> (int \<rightharpoonup> nat)" where
  "index_maps class_id_to_name_map =
     fold index_step (enumerate 0 class_id_to_name_map) (Map.empty, Map.empty)"

definition init ::
  "(int \<times> string) list \<Rightarrow> real list \<Rightarrow> real list \<Rightarrow> real option \<Rightarrow> real option \<Rightarrow> metric" where
  "init class_id_to_name_map speed_splits epe_splits close_threshold scale_factor =
     \<lparr> class_index_to_name_map = fst (index_maps class_id_to_name_map),
       class_id_to_index_map = snd (index_maps class_id_to_name_map),
       speed_bucket_splits_meters_per_second = speed_splits,
       endpoint_error_splits_meters = epe_splits,
       per_class_bucketed_error_sum = (\<lambda>_. 0),
       per_class_bucketed_error_count = (\<lambda>_. 0),
       close_object_threshold_meters = (case close_threshold of None \<Rightarrow> 35 | Some t \<Rightarrow> t),
       per_frame_to_per_second_scale_factor = (case scale_factor of None \<Rightarrow> 10 | Some s \<Rightarrow> s),
       total_forward_time = 0,
       total_forward_count = 0 \<rparr>"

text \<open>The shape of the two accumulators as the constructor allocates them, and the indices
  that lie inside a shape.\<close>

definition accumulator_shape :: "(int \<times> string) list \<Rightarrow> metric \<Rightarrow> idx" where
  "accumulator_shape class_id_to_name_map self =
     (2, length class_id_to_name_map, length (speed_bucket_bounds self),
      length (epe_bucket_bounds self))"

definition inside :: "idx \<Rightarrow> idx \<Rightarrow> bool" where
  "inside shp i =
     (case shp of (n1, n2, n3, n4) \<Rightarrow> case i of (c, k, s, e) \<Rightarrow>
        c < n1 \<and> k < n2 \<and> s < n3 \<and> e < n4)"

section \<open>\<^verbatim>\<open>update_class_error\<close>\<close>

text \<open>The three assertions at the head of the method.\<close>

definition shapes_pass :: "tensor2 \<Rightarrow> tensor2 \<Rightarrow> tensor2 \<Rightarrow> bool" where
  "shapes_pass pc regressed_flow gt_flow =
     (shape regressed_flow = shape gt_flow \<and>
      fst (shape regressed_flow) = fst (shape pc) \<and>
      snd (shape pc) = 3)"

text \<open>The per-point vectors computed before the loops.\<close>

definition is_close_mask :: "metric \<Rightarrow> tensor2 \<Rightarrow> bool list" where
  "is_close_mask self pc =
     map (\<lambda>d. d \<le> close_object_threshold_meters self)
         (map norm_inf (map (take 2) (rows pc)))"

definition endpoint_errors :: "tensor2 \<Rightarrow> tensor2 \<Rightarrow> real list" where
  "endpoint_errors regressed_flow gt_flow =
     map norm_2 (map2 (map2 (-)) (rows regressed_flow) (rows gt_flow))"

definition gt_speeds :: "metric \<Rightarrow> tensor2 \<Rightarrow> real list" where
  "gt_speeds self gt_flow =
     map (\<lambda>r. norm_2 r * per_frame_to_per_second_scale_factor self) (rows gt_flow)"

text \<open>Boolean masks: the comparison of one value and of a vector against one bucket
  (\<^verbatim>\<open>(v >= lower) & (v < upper)\<close>), the conjunction of two masks,
  the selection \<^verbatim>\<open>values[mask]\<close> and the number of set entries \<^verbatim>\<open>torch.sum(mask)\<close>.\<close>

definition in_bucket :: "real \<times> real \<Rightarrow> real \<Rightarrow> bool" where
  "in_bucket b v = (v \<ge> fst b \<and> v < snd b)"

definition bucket_mask :: "real \<Rightarrow> real \<Rightarrow> real list \<Rightarrow> bool list" where
  "bucket_mask lower upper vs = map (in_bucket (lower, upper)) vs"

definition mask_and :: "bool list \<Rightarrow> bool list \<Rightarrow> bool list" where
  "mask_and a b = map2 (\<and>) a b"

definition masked_select :: "real list \<Rightarrow> bool list \<Rightarrow> real list" where
  "masked_select vs m = map fst (filter snd (zip vs m))"

definition mask_count :: "bool list \<Rightarrow> int" where
  "mask_count m = int (length (filter (\<lambda>b. b) m))"

text \<open>The two in-place additions of the innermost loop body.\<close>

definition add_at :: "float_ops \<Rightarrow> metric \<Rightarrow> idx \<Rightarrow> real \<Rightarrow> int \<Rightarrow> metric" where
  "add_at ops self i err_sum cnt =
     self\<lparr> per_class_bucketed_error_sum :=
             (per_class_bucketed_error_sum self)
               (i := fadd ops (per_class_bucketed_error_sum self i) err_sum),
           per_class_bucketed_error_count :=
             (per_class_bucketed_error_count self)(i := per_class_bucketed_error_count self i + cnt) \<rparr>"

text \<open>The three nested loops, from the innermost one outwards.\<close>

definition epe_loop ::
  "float_ops \<Rightarrow> nat \<Rightarrow> nat \<Rightarrow> nat \<Rightarrow> bool list \<Rightarrow> bool list \<Rightarrow> real list \<Rightarrow>
   (real \<times> real) list \<Rightarrow> metric \<Rightarrow> metric" where
  "epe_loop ops close_mask_idx class_index speed_idx close_mask speed_mask errs epe_bounds =
     fold (\<lambda>(epe_idx, (lower_epe_bound, upper_epe_bound)) self.
             let endpoint_error_mask = bucket_mask lower_epe_bound upper_epe_bound errs;
                 total_mask = mask_and (mask_and close_mask speed_mask) endpoint_error_mask
             in add_at ops self (close_mask_idx, class_index, speed_idx, epe_idx)
                  (fsum ops (masked_select errs total_mask)) (mask_count total_mask))
          (enumerate 0 epe_bounds)"

definition speed_loop ::
  "float_ops \<Rightarrow> nat \<Rightarrow> nat \<Rightarrow> bool list \<Rightarrow> real list \<Rightarrow> real list \<Rightarrow>
   (real \<times> real) list \<Rightarrow> (real \<times> real) list \<Rightarrow> metric \<Rightarrow> metric" where
  "speed_loop ops close_mask_idx class_index close_mask speeds errs speed_bounds epe_bounds =
     fold (\<lambda>(speed_idx, (lower_speed_bound, upper_speed_bound)).
             let speed_mask = bucket_mask lower_speed_bound upper_speed_bound speeds
             in epe_loop ops close_mask_idx class_index speed_idx close_mask speed_mask
                  errs epe_bounds)
          (enumerate 0 speed_bounds)"

definition close_loop ::
  "float_ops \<Rightarrow> nat \<Rightarrow> bool list \<Rightarrow> real list \<Rightarrow> real list \<Rightarrow>
   (real \<times> real) list \<Rightarrow> (real \<times> real) list \<Rightarrow> metric \<Rightarrow> metric" where
  "close_loop ops class_index close speeds errs speed_bounds epe_bounds =
     fold (\<lambda>(close_mask_idx, close_mask).
             speed_loop ops close_mask_idx class_index close_mask speeds errs
               speed_bounds epe_bounds)
          (enumerate 0 [close, map Not close])"

text \<open>The method. A failure carries the state of the object at the moment of the
  \<^verbatim>\<open>raise\<close>; both raises come before the first assignment.\<close>

definition update_class_error ::
  "float_ops \<Rightarrow> metric \<Rightarrow> tensor2 \<Rightarrow> int \<Rightarrow> tensor2 \<Rightarrow> tensor2 \<Rightarrow>
   error \<times> metric + metric" where
  "update_class_error ops self pc class_id regressed_flow gt_flow =
     (if \<not> shapes_pass pc regressed_flow gt_flow then Inl (AssertionError, self)
      else case class_id_to_index_map self class_id of
             None \<Rightarrow> Inl (KeyError, self)
           | Some class_index \<Rightarrow>
               Inr (close_loop ops class_index (is_close_mask self pc) (gt_speeds self gt_flow)
                      (endpoint_errors regressed_flow gt_flow)
                      (speed_bucket_bounds self) (epe_bucket_bounds self) self))"

section \<open>Run time, reset, gather and the end of a validation epoch\<close>

definition update_runtime :: "float_ops \<Rightarrow> metric \<Rightarrow> real \<Rightarrow> int \<Rightarrow> metric" where
  "update_runtime ops self run_time run_count =
     self\<lparr> total_forward_time := fadd ops (total_forward_time self) run_time,
           total_forward_count := total_forward_count self + run_count \<rparr>"

definition reset :: "metric \<Rightarrow> metric" where
  "reset self =
     self\<lparr> per_class_bucketed_error_sum := (\<lambda>_. 0),
           per_class_bucketed_error_count := (\<lambda>_. 0),
           total_forward_time := 0,
           total_forward_count := 0 \<rparr>"

text \<open>\<^verbatim>\<open>torch.sum(stack, dim=0)\<close> for a stack of count accumulators and for a stack
  of float accumulators; for a stack of scalars it is \<open>sum_list\<close> and \<open>fsum\<close>.\<close>

definition sum_dim0 :: "(idx \<Rightarrow> int) list \<Rightarrow> idx \<Rightarrow> int" where
  "sum_dim0 stack = (\<lambda>i. sum_list (map (\<lambda>t. t i) stack))"

definition fsum_dim0 :: "float_ops \<Rightarrow> (idx \<Rightarrow> real) list \<Rightarrow> idx \<Rightarrow> real" where
  "fsum_dim0 ops stack = (\<lambda>i. fsum ops (map (\<lambda>t. t i) stack))"

text \<open>The four tensors of a metric object, in the order in which \<^verbatim>\<open>gather\<close> returns
  their sums.\<close>

type_synonym totals = "(idx \<Rightarrow> real) \<times> (idx \<Rightarrow> int) \<times> real \<times> int"

definition tensors_of :: "metric \<Rightarrow> totals" where
  "tensors_of self =
     (per_class_bucketed_error_sum self, per_class_bucketed_error_count self,
      total_forward_time self, total_forward_count self)"

text \<open>\<^verbatim>\<open>gather_fn\<close>, the argument of \<^verbatim>\<open>gather\<close>, is called on tensors of four kinds
  and returns a stack each time: it is a record of four functions.\<close>

record gather_fn =
  on_error_sum :: "(idx \<Rightarrow> real) \<Rightarrow> (idx \<Rightarrow> real) list"
  on_error_count :: "(idx \<Rightarrow> int) \<Rightarrow> (idx \<Rightarrow> int) list"
  on_forward_time :: "real \<Rightarrow> real list"
  on_forward_count :: "int \<Rightarrow> int list"

definition gather :: "float_ops \<Rightarrow> metric \<Rightarrow> gather_fn \<Rightarrow> totals" where
  "gather ops self gather_fn =
     (fsum_dim0 ops (on_error_sum gather_fn (per_class_bucketed_error_sum self)),
      sum_dim0 (on_error_count gather_fn (per_class_bucketed_error_count self)),
      fsum ops (on_forward_time gather_fn (total_forward_time self)),
      sum_list (on_forward_count gather_fn (total_forward_count self)))"

text \<open>The \<^verbatim>\<open>gather_fn\<close> that \<^verbatim>\<open>validation_epoch_end\<close> passes is the framework's
  \<^verbatim>\<open>all_gather\<close>, which is not part of the repository. It is modelled by its contract:
  called by the process of rank \<open>rank\<close> on one of its tensors, it returns the stack, in
  rank order, of the tensors of that kind which the processes of the run have handed to the
  collective, the caller's own at position \<open>rank\<close>. \<open>contributions\<close> lists, by rank,
  the four tensors each process has handed in.\<close>

definition all_gather :: "totals list \<Rightarrow> nat \<Rightarrow> gather_fn" where
  "all_gather contributions rank =
     \<lparr> on_error_sum = (\<lambda>t. (map fst contributions)[rank := t]),
       on_error_count = (\<lambda>t. (map (\<lambda>c. fst (snd c)) contributions)[rank := t]),
       on_forward_time = (\<lambda>t. (map (\<lambda>c. fst (snd (snd c))) contributions)[rank := t]),
       on_forward_count = (\<lambda>t. (map (\<lambda>c. snd (snd (snd c))) contributions)[rank := t]) \<rparr>"

record validation_result =
  result_error_sum :: "idx \<Rightarrow> real"
  result_error_count :: "idx \<Rightarrow> int"
  average_forward_time :: torch_float

text \<open>\<^verbatim>\<open>validation_epoch_end\<close>, given \<^verbatim>\<open>self.all_gather\<close>, \<^verbatim>\<open>self.global_rank\<close>
  and \<^verbatim>\<open>self.metric\<close>. The method returns an empty dictionary; what it does is observed
  through the new state of the metric, the four gathered tensors (local variables of the
  method) and the dictionary handed to the logging and saving helpers, which only rank 0
  builds.\<close>

record epoch_end =
  metric_after :: metric
  gathered_error_sum :: "idx \<Rightarrow> real"
  gathered_error_count :: "idx \<Rightarrow> int"
  gathered_forward_time :: real
  gathered_forward_count :: int
  validation_result_dict :: "validation_result option"

definition validation_epoch_end ::
  "float_ops \<Rightarrow> gather_fn \<Rightarrow> nat \<Rightarrow> metric \<Rightarrow> epoch_end" where
  "validation_epoch_end ops self_all_gather global_rank self =
     (let (err_sum, err_count, forward_time, forward_count) = gather ops self self_all_gather;
          self' = reset self
      in \<lparr> metric_after = self',
           gathered_error_sum = err_sum,
           gathered_error_count = err_count,
           gathered_forward_time = forward_time,
           gathered_forward_count = forward_count,
           validation_result_dict =
             (if global_rank \<noteq> 0 then None
              else Some \<lparr> result_error_sum = err_sum,
                          result_error_count = err_count,
                          average_forward_time = torch_div forward_time forward_count \<rparr>) \<rparr>)"

section \<open>The processes of a run at the end of an epoch\<close>

text \<open>
  Every process of a distributed run executes \<^verbatim>\<open>validation_epoch_end\<close> on its own
  metric object. The statements of the method that touch the metric are, in program
  order, the call of \<^verbatim>\<open>gather\<close> and the call of \<^verbatim>\<open>reset\<close>. The collective inside
  \<^verbatim>\<open>gather\<close> blocks: a process hands in its tensors when it enters the collective and
  leaves it, with the stack, only once every process has handed in its own. (The four
  consecutive collectives of \<^verbatim>\<open>gather\<close> are taken as one; nothing touches the metric
  between them.) A process is therefore at one of four locations, and an execution of
  the run is a schedule: a list of events, each moving one process one step. An event
  that is not enabled, such as leaving a collective that some process has not entered,
  has no successor state.
\<close>

datatype location = Before_gather | In_gather | Before_reset | After_reset

record process =
  location :: location
  metric_of :: metric
  contribution :: "totals option"
  gathered :: "totals option"

datatype event = Enter nat | Leave nat | Reset nat

fun step :: "float_ops \<Rightarrow> process list \<Rightarrow> event \<Rightarrow> process list option" where
  "step ops ps (Enter rank) =
     (if rank < length ps \<and> location (ps ! rank) = Before_gather
      then Some (ps[rank := (ps ! rank)
                   \<lparr> location := In_gather,
                     contribution := Some (tensors_of (metric_of (ps ! rank))) \<rparr>])
      else None)"
| "step ops ps (Leave rank) =
     (if rank < length ps \<and> location (ps ! rank) = In_gather
      then (case those (map contribution ps) of
              None \<Rightarrow> None
            | Some contributions \<Rightarrow>
                Some (ps[rank := (ps ! rank)
                       \<lparr> location := Before_reset,
                         gathered := Some (gather ops (metric_of (ps ! rank))
                                             (all_gather contributions rank)) \<rparr>]))
      else None)"
| "step ops ps (Reset rank) =
     (if rank < length ps \<and> location (ps ! rank) = Before_reset
      then Some (ps[rank := (ps ! rank)
                   \<lparr> location := After_reset,
                     metric_of := reset (metric_of (ps ! rank)) \<rparr>])
      else None)"

fun run :: "float_ops \<Rightarrow> process list \<Rightarrow> event list \<Rightarrow> process list option" where
  "run ops ps [] = Some ps"
| "run ops ps (e # es) =
     (case step ops ps e of None \<Rightarrow> None | Some ps' \<Rightarrow> run ops ps' es)"

definition start :: "metric list \<Rightarrow> process list" where
  "start world =
     map (\<lambda>m. \<lparr> location = Before_gather, metric_of = m,
                contribution = None, gathered = None \<rparr>) world"

section \<open>Notions used in the statements\<close>

text \<open>The per-point values the loops work on, one triple (close, speed, error) per row,
  and the triple of a single row of the three arrays.\<close>

definition points :: "metric \<Rightarrow> tensor2 \<Rightarrow> tensor2 \<Rightarrow> tensor2 \<Rightarrow> (bool \<times> real \<times> real) list" where
  "points self pc regressed_flow gt_flow =
     zip (is_close_mask self pc)
         (zip (gt_speeds self gt_flow) (endpoint_errors regressed_flow gt_flow))"

definition point_of :: "metric \<Rightarrow> real list \<times> real list \<times> real list \<Rightarrow> bool \<times> real \<times> real" where
  "point_of self r =
     (case r of (p, f, g) \<Rightarrow>
        (norm_inf (take 2 p) \<le> close_object_threshold_meters self,
         norm_2 g * per_frame_to_per_second_scale_factor self,
         norm_2 (map2 (-) f g)))"

text \<open>The cells a call for the class index \<open>k\<close> addresses: one for each proximity
  slice, speed bucket and error bucket.\<close>

definition addressed :: "(real \<times> real) list \<Rightarrow> (real \<times> real) list \<Rightarrow> nat \<Rightarrow> idx \<Rightarrow> bool" where
  "addressed sb eb k i =
     (case i of (c, k', s, e) \<Rightarrow> c < 2 \<and> k' = k \<and> s < length sb \<and> e < length eb)"

text \<open>A point lies in the cell \<open>(c, k', s, e)\<close> when \<open>c\<close> is its proximity slice (0 for
  close, 1 for far), \<open>k'\<close> is the class index \<open>k\<close> of the call, and the buckets number
  \<open>s\<close> and \<open>e\<close> contain its speed and its error. \<open>cell_errors\<close> lists the errors of
  the points of a list that lie in a cell, in the order of the list; \<open>cell_sum\<close> is
  their exact sum and \<open>cell_count\<close> their number.\<close>

definition in_cell ::
  "(real \<times> real) list \<Rightarrow> (real \<times> real) list \<Rightarrow> nat \<Rightarrow> idx \<Rightarrow> bool \<times> real \<times> real \<Rightarrow> bool" where
  "in_cell sb eb k i p =
     (case i of (c, k', s, e) \<Rightarrow> case p of (cl, sp, er) \<Rightarrow>
        c < 2 \<and> (c = 0) = cl \<and> k' = k \<and>
        s < length sb \<and> in_bucket (sb ! s) sp \<and>
        e < length eb \<and> in_bucket (eb ! e) er)"

definition cell_errors ::
  "(real \<times> real) list \<Rightarrow> (real \<times> real) list \<Rightarrow> nat \<Rightarrow> (bool \<times> real \<times> real) list \<Rightarrow> idx \<Rightarrow>
   real list" where
  "cell_errors sb eb k ps i = map (\<lambda>p. snd (snd p)) (filter (in_cell sb eb k i) ps)"

definition cell_sum ::
  "(real \<times> real) list \<Rightarrow> (real \<times> real) list \<Rightarrow> nat \<Rightarrow> (bool \<times> real \<times> real) list \<Rightarrow> idx \<Rightarrow> real" where
  "cell_sum sb eb k ps i = (\<Sum>p\<leftarrow>ps. if in_cell sb eb k i p then snd (snd p) else 0)"

definition cell_count ::
  "(real \<times> real) list \<Rightarrow> (real \<times> real) list \<Rightarrow> nat \<Rightarrow> (bool \<times> real \<times> real) list \<Rightarrow> idx \<Rightarrow> int" where
  "cell_count sb eb k ps i = int (length (filter (in_cell sb eb k i) ps))"

text \<open>Several calls of \<^verbatim>\<open>update_class_error\<close> for one category, one after the other,
  as \<^verbatim>\<open>validation_step\<close> issues them; the rows of a call, as triples; and the
  assertions of a call.\<close>

fun update_calls ::
  "float_ops \<Rightarrow> metric \<Rightarrow> int \<Rightarrow> (tensor2 \<times> tensor2 \<times> tensor2) list \<Rightarrow>
   error \<times> metric + metric" where
  "update_calls ops self class_id [] = Inr self"
| "update_calls ops self class_id ((pc, regressed_flow, gt_flow) # calls) =
     (case update_class_error ops self pc class_id regressed_flow gt_flow of
        Inl failure \<Rightarrow> Inl failure
      | Inr self' \<Rightarrow> update_calls ops self' class_id calls)"

definition call_rows :: "tensor2 \<times> tensor2 \<times> tensor2 \<Rightarrow> (real list \<times> real list \<times> real list) list" where
  "call_rows call = (case call of (pc, regressed_flow, gt_flow) \<Rightarrow>
     zip (rows pc) (zip (rows regressed_flow) (rows gt_flow)))"

definition call_passes :: "tensor2 \<times> tensor2 \<times> tensor2 \<Rightarrow> bool" where
  "call_passes call = (case call of (pc, regressed_flow, gt_flow) \<Rightarrow>
     shapes_pass pc regressed_flow gt_flow)"

text \<open>The specification's \<open>merge\<close> of two accumulators is the gather over a run of two
  processes: \<open>merge ops a b\<close> is \<open>a\<close> holding the totals that \<^verbatim>\<open>gather\<close> returns for
  the stack of \<open>a\<close> and \<open>b\<close>.\<close>

definition with_tensors :: "metric \<Rightarrow> totals \<Rightarrow> metric" where
  "with_tensors m t =
     (case t of (err_sum, err_count, forward_time, forward_count) \<Rightarrow>
        m\<lparr> per_class_bucketed_error_sum := err_sum,
           per_class_bucketed_error_count := err_count,
           total_forward_time := forward_time,
           total_forward_count := forward_count \<rparr>)"

definition merge :: "float_ops \<Rightarrow> metric \<Rightarrow> metric \<Rightarrow> metric" where
  "merge ops a b = with_tensors a (gather ops a (all_gather [tensors_of a, tensors_of b] 0))"

text \<open>What one iteration of the innermost loop selects and counts, as the source computes
  it from masks.\<close>

definition bucket_errors ::
  "bool list \<Rightarrow> real list \<Rightarrow> real list \<Rightarrow> real \<times> real \<Rightarrow> real \<times> real \<Rightarrow> real list" where
  "bucket_errors cm speeds errs sbk ebk =
     masked_select errs
       (mask_and (mask_and cm (bucket_mask (fst sbk) (snd sbk) speeds))
                 (bucket_mask (fst ebk) (snd ebk) errs))"

definition bucket_count ::
  "bool list \<Rightarrow> real list \<Rightarrow> real list \<Rightarrow> real \<times> real \<Rightarrow> real \<times> real \<Rightarrow> int" where
  "bucket_count cm speeds errs sbk ebk =
     mask_count
       (mask_and (mask_and cm (bucket_mask (fst sbk) (snd sbk) speeds))
                 (bucket_mask (fst ebk) (snd ebk) errs))"

text \<open>The sums, over the metric objects of all processes, of the four tensors.\<close>

definition world_totals :: "float_ops \<Rightarrow> metric list \<Rightarrow> totals" where
  "world_totals ops world =
     (fsum_dim0 ops (map per_class_bucketed_error_sum world),
      sum_dim0 (map per_class_bucketed_error_count world),
      fsum ops (map total_forward_time world),
      sum_list (map total_forward_count world))"

text \<open>What the state of the process of rank \<open>rank\<close> must be at its location, when the
  processes started the end of the epoch with the metric objects \<open>world\<close>; a list of
  processes is consistent when each of them is in that state.\<close>

definition process_ok :: "float_ops \<Rightarrow> metric list \<Rightarrow> nat \<Rightarrow> process \<Rightarrow> bool" where
  "process_ok ops world rank p =
     (metric_of p = (if location p = After_reset then reset (world ! rank) else world ! rank) \<and>
      contribution p =
        (if location p = Before_gather then None else Some (tensors_of (world ! rank))) \<and>
      gathered p =
        (if location p = Before_reset \<or> location p = After_reset
         then Some (world_totals ops world) else None))"

definition consistent :: "float_ops \<Rightarrow> metric list \<Rightarrow> process list \<Rightarrow> bool" where
  "consistent ops world ps =
     (length ps = length world \<and>
      (\<forall>rank < length world. process_ok ops world rank (ps ! rank)))"

text \<open>A state transformer that, at every cell of \<open>D\<close>, adds \<open>ds\<close> to the error sum
  with the addition of \<open>ops\<close> and \<open>dc\<close> to the error count, and changes nothing else.\<close>

definition touches ::
  "float_ops \<Rightarrow> (metric \<Rightarrow> metric) \<Rightarrow> (idx \<Rightarrow> bool) \<Rightarrow> (idx \<Rightarrow> real) \<Rightarrow> (idx \<Rightarrow> int) \<Rightarrow> bool" where
  "touches ops T D ds dc =
     (\<forall>m. T m =
        m\<lparr> per_class_bucketed_error_sum :=
             (\<lambda>i. if D i then fadd ops (per_class_bucketed_error_sum m i) (ds i)
                   else per_class_bucketed_error_sum m i),
           per_class_bucketed_error_count :=
             (\<lambda>i. if D i then per_class_bucketed_error_count m i + dc i
                   else per_class_bucketed_error_count m i) \<rparr>)"

text \<open>Zero is neutral for an arithmetic: the sum of no number is 0, the sum of one number
  is that number, and adding 0 changes nothing. Both instances have this property.\<close>

definition neutral_zero :: "float_ops \<Rightarrow> bool" where
  "neutral_zero ops =
     (fsum ops [] = 0 \<and> (\<forall>x. fsum ops [x] = x) \<and> (\<forall>x. fadd ops x 0 = x))"

text \<open>A metric object as \<^verbatim>\<open>ModelWrapper\<close> builds it (both defaults taken), with two
  categories, two speed buckets and one error bucket, and a call with two points: the first
  close and in the first speed bucket, the second far and in the second speed bucket. All
  numbers are binary32 numbers.\<close>

definition example_metric :: metric where
  "example_metric =
     init [(0, ''BACKGROUND''), (1, ''CAR'')] [0, 5, 10] [0, 1] None None"

definition example_pc :: tensor2 where
  "example_pc = \<lparr>ncols = 3, rows = [[1, 2, 0], [40, 0, 0]]\<rparr>"

definition example_regressed_flow :: tensor2 where
  "example_regressed_flow = \<lparr>ncols = 3, rows = [[1/4, 0, 0], [7/8, 0, 0]]\<rparr>"

definition example_gt_flow :: tensor2 where
  "example_gt_flow = \<lparr>ncols = 3, rows = [[1/8, 0, 0], [3/4, 0, 0]]\<rparr>"

text \<open>Two processes that each hold a count of 5 at the same cell.\<close>

definition example_world :: "metric list" where
  "example_world =
     [example_metric\<lparr> per_class_bucketed_error_sum := (\<lambda>_. 0)((0, 0, 0, 0) := 1/2),
                      per_class_bucketed_error_count := (\<lambda>_. 0)((0, 0, 0, 0) := 5) \<rparr>,
      example_metric\<lparr> per_class_bucketed_error_sum := (\<lambda>_. 0)((0, 0, 0, 0) := 3/2),
                      per_class_bucketed_error_count := (\<lambda>_. 0)((0, 0, 0, 0) := 5) \<rparr>]"

text \<open>Three processes that have each seen one close point of class 0 and speed 0, the
  first with error \<open>1/2\<close>, the other two with error \<open>2^-25\<close>.\<close>

definition example_half :: metric where
  "example_half = add_at binary32_ops example_metric (0, 0, 0, 0) (1/2) 1"

definition example_tiny :: metric where
  "example_tiny = add_at binary32_ops example_metric (0, 0, 0, 0) (1/33554432) 1"

section \<open>The constructor's dictionaries\<close>

lemma index_step_pair:
  "index_step (cls_index, cls_id, cls_name) (by_index, by_id) =
     (by_index(cls_index \<mapsto> cls_name), by_id(cls_id \<mapsto> cls_index))"
  by (simp add: index_step_def)

lemma index_maps_fold_Cons:
  "fold index_step (enumerate n ((cid, name) # tbl)) (m1, m2) =
   fold index_step (enumerate (Suc n) tbl) (m1(n \<mapsto> name), m2(cid \<mapsto> n))"
  by (simp add: index_step_pair)

lemma index_maps_fold_other:
  assumes "k \<notin> fst ` set tbl"
  shows "snd (fold index_step (enumerate n tbl) (m1, m2)) k = m2 k"
  using assms
proof (induction tbl arbitrary: n m1 m2)
  case Nil
  show ?case by simp
next
  case (Cons x tbl)
  obtain cid name where x: "x = (cid, name)" by (cases x) auto
  from Cons.prems have ne: "k \<noteq> cid" and rest: "k \<notin> fst ` set tbl" by (auto simp: x)
  have "snd (fold index_step (enumerate (Suc n) tbl) (m1(n \<mapsto> name), m2(cid \<mapsto> n))) k
          = (m2(cid \<mapsto> n)) k"
    by (rule Cons.IH [OF rest])
  also have "\<dots> = m2 k" using ne by simp
  finally show ?case by (simp only: x index_maps_fold_Cons)
qed

lemma index_maps_fold_nth:
  assumes "distinct (map fst tbl)" and "i < length tbl"
  shows "snd (fold index_step (enumerate n tbl) (m1, m2)) (fst (tbl ! i)) = Some (n + i)"
  using assms
proof (induction tbl arbitrary: n m1 m2 i)
  case Nil
  then show ?case by simp
next
  case (Cons x tbl)
  obtain cid name where x: "x = (cid, name)" by (cases x) auto
  show ?case
  proof (cases i)
    case 0
    have "cid \<notin> fst ` set tbl" using Cons.prems(1) by (simp add: x)
    then have "snd (fold index_step (enumerate (Suc n) tbl) (m1(n \<mapsto> name), m2(cid \<mapsto> n))) cid
          = (m2(cid \<mapsto> n)) cid"
      by (rule index_maps_fold_other)
    then show ?thesis
      by (simp add: x 0 index_maps_fold_Cons del: enumerate_simps fold_simps)
  next
    case (Suc j)
    then have j: "j < length tbl" and d: "distinct (map fst tbl)" using Cons.prems by simp_all
    have "snd (fold index_step (enumerate (Suc n) tbl) (m1(n \<mapsto> name), m2(cid \<mapsto> n)))
            (fst (tbl ! j)) = Some (Suc n + j)"
      by (rule Cons.IH [OF d j])
    then show ?thesis
      by (simp add: x Suc index_maps_fold_Cons del: enumerate_simps fold_simps)
  qed
qed

lemma init_class_index:
  assumes "distinct (map fst tbl)" and "i < length tbl"
  shows "class_id_to_index_map (init tbl ss es thr sc) (fst (tbl ! i)) = Some i"
  using index_maps_fold_nth [OF assms, of 0 Map.empty Map.empty]
  by (simp add: init_def index_maps_def)

lemma init_class_absent:
  assumes "k \<notin> fst ` set tbl"
  shows "class_id_to_index_map (init tbl ss es thr sc) k = None"
  using index_maps_fold_other [OF assms, of 0 Map.empty Map.empty]
  by (simp add: init_def index_maps_def)

section \<open>Buckets\<close>

lemma length_bucket_bounds: "length (bucket_bounds splits) = length splits - 1"
  by (simp add: bucket_bounds_def)

lemma bucket_bounds_nth:
  assumes "s < length (bucket_bounds splits)"
  shows "bucket_bounds splits ! s = (splits ! s, splits ! Suc s)"
    and "Suc s < length splits"
  using assms by (auto simp: bucket_bounds_def)

lemma bucket_unique:
  assumes "sorted splits"
    and "s < length (bucket_bounds splits)" and "s' < length (bucket_bounds splits)"
    and "in_bucket (bucket_bounds splits ! s) v" and "in_bucket (bucket_bounds splits ! s') v"
  shows "s = s'"
proof (rule ccontr)
  assume ne: "s \<noteq> s'"
  have less: "False" if "a < b" and a: "a < length (bucket_bounds splits)"
    and b: "b < length (bucket_bounds splits)"
    and ia: "in_bucket (bucket_bounds splits ! a) v" and ib: "in_bucket (bucket_bounds splits ! b) v"
  for a b
  proof -
    have "v < splits ! Suc a" using ia bucket_bounds_nth(1) [OF a] by (simp add: in_bucket_def)
    moreover have "splits ! b \<le> v" using ib bucket_bounds_nth(1) [OF b] by (simp add: in_bucket_def)
    moreover have "splits ! Suc a \<le> splits ! b"
      using assms(1) that(1) bucket_bounds_nth(2) [OF b] by (simp add: sorted_nth_mono)
    ultimately show False by simp
  qed
  from ne have "s < s' \<or> s' < s" by auto
  then show False using less assms(2-5) by blast
qed

lemma outside_all_buckets:
  assumes "(\<forall>x\<in>set splits. v < x) \<or> (\<forall>x\<in>set splits. x \<le> v)"
  shows "\<forall>b\<in>set (bucket_bounds splits). \<not> in_bucket b v"
proof
  fix b assume "b \<in> set (bucket_bounds splits)"
  then have "(fst b, snd b) \<in> set (zip splits (drop 1 splits))"
    by (simp add: bucket_bounds_def)
  then have "fst b \<in> set splits" and "snd b \<in> set (drop 1 splits)"
    by (rule set_zip_leftD, rule set_zip_rightD)
  then have "fst b \<in> set splits" and "snd b \<in> set splits"
    by (auto dest: in_set_dropD)
  with assms show "\<not> in_bucket b v"
    by (auto simp: in_bucket_def)
qed

section \<open>State transformers that touch each cell once\<close>

lemma touches_add_at:
  "touches ops (\<lambda>m. add_at ops m j a b) (\<lambda>i. i = j) (\<lambda>_. a) (\<lambda>_. b)"
  unfolding touches_def add_at_def
  by (auto intro!: metric.equality ext)

lemma touches_cong:
  assumes "touches ops T D ds dc"
    and "\<And>i. D' i = D i" and "\<And>i. D i \<Longrightarrow> ds' i = ds i" and "\<And>i. D i \<Longrightarrow> dc' i = dc i"
  shows "touches ops T D' ds' dc'"
  using assms unfolding touches_def
  by (auto intro!: metric.equality ext)

lemma touches_fold_enumerate:
  assumes "\<And>j x. touches ops (f (j, x)) (\<lambda>i. proj i = j \<and> D i) (ds x) (dc x)"
  shows "touches ops (fold f (enumerate n xs))
           (\<lambda>i. n \<le> proj i \<and> proj i < n + length xs \<and> D i)
           (\<lambda>i. ds (xs ! (proj i - n)) i)
           (\<lambda>i. dc (xs ! (proj i - n)) i)"
proof (induction xs arbitrary: n)
  case Nil
  show ?case by (auto simp: touches_def intro!: metric.equality ext)
next
  case (Cons x xs)
  have 1: "touches ops (f (n, x)) (\<lambda>i. proj i = n \<and> D i) (ds x) (dc x)"
    by (rule assms)
  note 2 = Cons.IH [of "Suc n"]
  show ?case
    unfolding touches_def
  proof
    fix m
    have "fold f (enumerate n (x # xs)) m = fold f (enumerate (Suc n) xs) (f (n, x) m)"
      by simp
    also have "\<dots> = m\<lparr> per_class_bucketed_error_sum :=
             (\<lambda>i. if n \<le> proj i \<and> proj i < n + length (x # xs) \<and> D i
                   then fadd ops (per_class_bucketed_error_sum m i) (ds ((x # xs) ! (proj i - n)) i)
                   else per_class_bucketed_error_sum m i),
           per_class_bucketed_error_count :=
             (\<lambda>i. if n \<le> proj i \<and> proj i < n + length (x # xs) \<and> D i
                   then per_class_bucketed_error_count m i + dc ((x # xs) ! (proj i - n)) i
                   else per_class_bucketed_error_count m i) \<rparr>"
      using 1 2 unfolding touches_def
      by (auto intro!: metric.equality ext simp: nth_Cons' Suc_diff_le)
    finally show "fold f (enumerate n (x # xs)) m = m\<lparr> per_class_bucketed_error_sum :=
             (\<lambda>i. if n \<le> proj i \<and> proj i < n + length (x # xs) \<and> D i
                   then fadd ops (per_class_bucketed_error_sum m i) (ds ((x # xs) ! (proj i - n)) i)
                   else per_class_bucketed_error_sum m i),
           per_class_bucketed_error_count :=
             (\<lambda>i. if n \<le> proj i \<and> proj i < n + length (x # xs) \<and> D i
                   then per_class_bucketed_error_count m i + dc ((x # xs) ! (proj i - n)) i
                   else per_class_bucketed_error_count m i) \<rparr>" .
  qed
qed

section \<open>The loops of \<^verbatim>\<open>update_class_error\<close> in closed form\<close>

lemma epe_loop_touches:
  "touches ops (epe_loop ops ci k si cm sm errs eb)
     (\<lambda>i. fst i = ci \<and> fst (snd i) = k \<and> fst (snd (snd i)) = si \<and> snd (snd (snd i)) < length eb)
     (\<lambda>i. fsum ops (masked_select errs (mask_and (mask_and cm sm)
             (bucket_mask (fst (eb ! snd (snd (snd i)))) (snd (eb ! snd (snd (snd i)))) errs))))
     (\<lambda>i. mask_count (mask_and (mask_and cm sm)
             (bucket_mask (fst (eb ! snd (snd (snd i)))) (snd (eb ! snd (snd (snd i)))) errs)))"
proof -
  have "touches ops (epe_loop ops ci k si cm sm errs eb)
     (\<lambda>i. 0 \<le> snd (snd (snd i)) \<and> snd (snd (snd i)) < 0 + length eb \<and>
           (fst i = ci \<and> fst (snd i) = k \<and> fst (snd (snd i)) = si))
     (\<lambda>i. fsum ops (masked_select errs (mask_and (mask_and cm sm)
             (bucket_mask (fst (eb ! (snd (snd (snd i)) - 0))) (snd (eb ! (snd (snd (snd i)) - 0))) errs))))
     (\<lambda>i. mask_count (mask_and (mask_and cm sm)
             (bucket_mask (fst (eb ! (snd (snd (snd i)) - 0))) (snd (eb ! (snd (snd (snd i)) - 0))) errs)))"
    unfolding epe_loop_def
  proof (rule touches_fold_enumerate [where proj = "\<lambda>i. snd (snd (snd i))"
        and D = "\<lambda>i. fst i = ci \<and> fst (snd i) = k \<and> fst (snd (snd i)) = si"
        and ds = "\<lambda>b i. fsum ops (masked_select errs (mask_and (mask_and cm sm)
                     (bucket_mask (fst b) (snd b) errs)))"
        and dc = "\<lambda>b i. mask_count (mask_and (mask_and cm sm)
                     (bucket_mask (fst b) (snd b) errs))"])
    fix j :: nat and x :: "real \<times> real"
    let ?A = "fsum ops (masked_select errs (mask_and (mask_and cm sm) (bucket_mask (fst x) (snd x) errs)))"
    let ?B = "mask_count (mask_and (mask_and cm sm) (bucket_mask (fst x) (snd x) errs))"
    have "touches ops (\<lambda>m. add_at ops m (ci, k, si, j) ?A ?B)
            (\<lambda>i. snd (snd (snd i)) = j \<and> (fst i = ci \<and> fst (snd i) = k \<and> fst (snd (snd i)) = si))
            (\<lambda>i. ?A) (\<lambda>i. ?B)"
      by (rule touches_cong [OF touches_add_at]) auto
    then show "touches ops (case (j, x) of (epe_idx, lower_epe_bound, upper_epe_bound) \<Rightarrow> \<lambda>self.
           let endpoint_error_mask = bucket_mask lower_epe_bound upper_epe_bound errs;
               total_mask = mask_and (mask_and cm sm) endpoint_error_mask
           in add_at ops self (ci, k, si, epe_idx) (fsum ops (masked_select errs total_mask))
                (mask_count total_mask))
         (\<lambda>i. snd (snd (snd i)) = j \<and> (fst i = ci \<and> fst (snd i) = k \<and> fst (snd (snd i)) = si))
         (\<lambda>i. ?A) (\<lambda>i. ?B)"
      by (simp add: split_def Let_def)
  qed
  then show ?thesis
    by (rule touches_cong) auto
qed

lemma speed_loop_touches:
  "touches ops (speed_loop ops ci k cm speeds errs sb eb)
     (\<lambda>i. fst i = ci \<and> fst (snd i) = k \<and> fst (snd (snd i)) < length sb \<and>
           snd (snd (snd i)) < length eb)
     (\<lambda>i. fsum ops (bucket_errors cm speeds errs (sb ! fst (snd (snd i))) (eb ! snd (snd (snd i)))))
     (\<lambda>i. bucket_count cm speeds errs (sb ! fst (snd (snd i))) (eb ! snd (snd (snd i))))"
proof -
  have "touches ops (speed_loop ops ci k cm speeds errs sb eb)
     (\<lambda>i. 0 \<le> fst (snd (snd i)) \<and> fst (snd (snd i)) < 0 + length sb \<and>
           (fst i = ci \<and> fst (snd i) = k \<and> snd (snd (snd i)) < length eb))
     (\<lambda>i. fsum ops (bucket_errors cm speeds errs (sb ! (fst (snd (snd i)) - 0)) (eb ! snd (snd (snd i)))))
     (\<lambda>i. bucket_count cm speeds errs (sb ! (fst (snd (snd i)) - 0)) (eb ! snd (snd (snd i))))"
    unfolding speed_loop_def
  proof (rule touches_fold_enumerate [where proj = "\<lambda>i. fst (snd (snd i))"
        and D = "\<lambda>i. fst i = ci \<and> fst (snd i) = k \<and> snd (snd (snd i)) < length eb"
        and ds = "\<lambda>b i. fsum ops (bucket_errors cm speeds errs b (eb ! snd (snd (snd i))))"
        and dc = "\<lambda>b i. bucket_count cm speeds errs b (eb ! snd (snd (snd i)))"])
    fix j :: nat and x :: "real \<times> real"
    have "touches ops (epe_loop ops ci k j cm (bucket_mask (fst x) (snd x) speeds) errs eb)
       (\<lambda>i. fst (snd (snd i)) = j \<and>
             (fst i = ci \<and> fst (snd i) = k \<and> snd (snd (snd i)) < length eb))
       (\<lambda>i. fsum ops (bucket_errors cm speeds errs x (eb ! snd (snd (snd i)))))
       (\<lambda>i. bucket_count cm speeds errs x (eb ! snd (snd (snd i))))"
      by (rule touches_cong [OF epe_loop_touches])
         (auto simp: bucket_errors_def bucket_count_def)
    then show "touches ops (case (j, x) of (speed_idx, lower_speed_bound, upper_speed_bound) \<Rightarrow>
           let speed_mask = bucket_mask lower_speed_bound upper_speed_bound speeds
           in epe_loop ops ci k speed_idx cm speed_mask errs eb)
       (\<lambda>i. fst (snd (snd i)) = j \<and>
             (fst i = ci \<and> fst (snd i) = k \<and> snd (snd (snd i)) < length eb))
       (\<lambda>i. fsum ops (bucket_errors cm speeds errs x (eb ! snd (snd (snd i)))))
       (\<lambda>i. bucket_count cm speeds errs x (eb ! snd (snd (snd i))))"
      by (simp add: split_def Let_def)
  qed
  then show ?thesis
    by (rule touches_cong) auto
qed

lemma close_loop_touches_masks:
  "touches ops (close_loop ops k close speeds errs sb eb)
     (\<lambda>i. fst i < 2 \<and> fst (snd i) = k \<and> fst (snd (snd i)) < length sb \<and>
           snd (snd (snd i)) < length eb)
     (\<lambda>i. fsum ops (bucket_errors ([close, map Not close] ! fst i) speeds errs
                       (sb ! fst (snd (snd i))) (eb ! snd (snd (snd i)))))
     (\<lambda>i. bucket_count ([close, map Not close] ! fst i) speeds errs
             (sb ! fst (snd (snd i))) (eb ! snd (snd (snd i))))"
proof -
  have "touches ops (close_loop ops k close speeds errs sb eb)
     (\<lambda>i. 0 \<le> fst i \<and> fst i < 0 + length [close, map Not close] \<and>
           (fst (snd i) = k \<and> fst (snd (snd i)) < length sb \<and> snd (snd (snd i)) < length eb))
     (\<lambda>i. fsum ops (bucket_errors ([close, map Not close] ! (fst i - 0)) speeds errs
                       (sb ! fst (snd (snd i))) (eb ! snd (snd (snd i)))))
     (\<lambda>i. bucket_count ([close, map Not close] ! (fst i - 0)) speeds errs
             (sb ! fst (snd (snd i))) (eb ! snd (snd (snd i))))"
    unfolding close_loop_def
  proof (rule touches_fold_enumerate [where proj = fst
        and D = "\<lambda>i. fst (snd i) = k \<and> fst (snd (snd i)) < length sb \<and>
                      snd (snd (snd i)) < length eb"
        and ds = "\<lambda>cm i. fsum ops (bucket_errors cm speeds errs
                       (sb ! fst (snd (snd i))) (eb ! snd (snd (snd i))))"
        and dc = "\<lambda>cm i. bucket_count cm speeds errs
                       (sb ! fst (snd (snd i))) (eb ! snd (snd (snd i)))"])
    fix j :: nat and x :: "bool list"
    have "touches ops (speed_loop ops j k x speeds errs sb eb)
       (\<lambda>i. fst i = j \<and>
             (fst (snd i) = k \<and> fst (snd (snd i)) < length sb \<and> snd (snd (snd i)) < length eb))
       (\<lambda>i. fsum ops (bucket_errors x speeds errs (sb ! fst (snd (snd i))) (eb ! snd (snd (snd i)))))
       (\<lambda>i. bucket_count x speeds errs (sb ! fst (snd (snd i))) (eb ! snd (snd (snd i))))"
      by (rule touches_cong [OF speed_loop_touches]) auto
    then show "touches ops (case (j, x) of (close_mask_idx, close_mask) \<Rightarrow>
             speed_loop ops close_mask_idx k close_mask speeds errs sb eb)
       (\<lambda>i. fst i = j \<and>
             (fst (snd i) = k \<and> fst (snd (snd i)) < length sb \<and> snd (snd (snd i)) < length eb))
       (\<lambda>i. fsum ops (bucket_errors x speeds errs (sb ! fst (snd (snd i))) (eb ! snd (snd (snd i)))))
       (\<lambda>i. bucket_count x speeds errs (sb ! fst (snd (snd i))) (eb ! snd (snd (snd i))))"
      by simp
  qed
  then show ?thesis
    by (rule touches_cong) (auto simp: numeral_2_eq_2)
qed

lemma masked_errors:
  assumes "length cm = length sp" and "length sp = length er"
  shows "masked_select er (mask_and (mask_and cm (bucket_mask lo hi sp)) (bucket_mask elo ehi er))
         = map (\<lambda>p. snd (snd p))
             (filter (\<lambda>p. fst p \<and> in_bucket (lo, hi) (fst (snd p)) \<and>
                           in_bucket (elo, ehi) (snd (snd p)))
                (zip cm (zip sp er)))"
  using assms
  by (induction cm sp er rule: list_induct3)
     (simp_all add: masked_select_def mask_and_def bucket_mask_def)

lemma masked_count:
  assumes "length cm = length sp" and "length sp = length er"
  shows "mask_count (mask_and (mask_and cm (bucket_mask lo hi sp)) (bucket_mask elo ehi er))
         = int (length (filter (\<lambda>p. fst p \<and> in_bucket (lo, hi) (fst (snd p)) \<and>
                                   in_bucket (elo, ehi) (snd (snd p)))
                         (zip cm (zip sp er))))"
  using assms
  by (induction cm sp er rule: list_induct3)
     (simp_all add: mask_count_def mask_and_def bucket_mask_def)

lemma zip_map_Not:
  "zip (map Not cs) rs = map (\<lambda>p. (\<not> fst p, snd p)) (zip cs rs)"
  by (simp add: zip_map1 split_def)

lemma bucket_errors_points:
  assumes "length close = length speeds" and "length speeds = length errs" and "c < 2"
  shows "bucket_errors ([close, map Not close] ! c) speeds errs sbk ebk =
         map (\<lambda>p. snd (snd p))
           (filter (\<lambda>p. (c = 0) = fst p \<and> in_bucket sbk (fst (snd p)) \<and>
                         in_bucket ebk (snd (snd p)))
              (zip close (zip speeds errs)))"
proof (cases "c = 0")
  case True
  then show ?thesis
    using masked_errors [OF assms(1,2), of "fst sbk" "snd sbk" "fst ebk" "snd ebk"]
    by (simp add: bucket_errors_def)
next
  case False
  with assms(3) have c: "c = 1" by simp
  have "length (map Not close) = length speeds" using assms(1) by simp
  from masked_errors [OF this assms(2), of "fst sbk" "snd sbk" "fst ebk" "snd ebk"]
  show ?thesis
    by (simp add: bucket_errors_def c zip_map_Not filter_map comp_def)
qed

lemma bucket_count_points:
  assumes "length close = length speeds" and "length speeds = length errs" and "c < 2"
  shows "bucket_count ([close, map Not close] ! c) speeds errs sbk ebk =
         int (length (filter (\<lambda>p. (c = 0) = fst p \<and> in_bucket sbk (fst (snd p)) \<and>
                                    in_bucket ebk (snd (snd p)))
                        (zip close (zip speeds errs))))"
proof (cases "c = 0")
  case True
  then show ?thesis
    using masked_count [OF assms(1,2), of "fst sbk" "snd sbk" "fst ebk" "snd ebk"]
    by (simp add: bucket_count_def)
next
  case False
  with assms(3) have c: "c = 1" by simp
  have "length (map Not close) = length speeds" using assms(1) by simp
  from masked_count [OF this assms(2), of "fst sbk" "snd sbk" "fst ebk" "snd ebk"]
  show ?thesis
    by (simp add: bucket_count_def c zip_map_Not filter_map comp_def)
qed

lemma in_cell_addressed:
  "in_cell sb eb k i p \<Longrightarrow> addressed sb eb k i"
  by (cases i) (auto simp: in_cell_def addressed_def)

lemma cell_count_not_addressed:
  "\<not> addressed sb eb k i \<Longrightarrow> cell_count sb eb k ps i = 0"
  using in_cell_addressed [of sb eb k i] by (auto simp: cell_count_def filter_empty_conv)

lemma cell_errors_not_addressed:
  "\<not> addressed sb eb k i \<Longrightarrow> cell_errors sb eb k ps i = []"
  using in_cell_addressed [of sb eb k i] by (auto simp: cell_errors_def filter_empty_conv)

lemma close_loop_touches:
  assumes "length close = length speeds" and "length speeds = length errs"
  shows "touches ops (close_loop ops k close speeds errs sb eb)
           (addressed sb eb k)
           (\<lambda>i. fsum ops (cell_errors sb eb k (zip close (zip speeds errs)) i))
           (cell_count sb eb k (zip close (zip speeds errs)))"
proof (rule touches_cong [OF close_loop_touches_masks])
  fix i :: idx
  show "addressed sb eb k i =
        (fst i < 2 \<and> fst (snd i) = k \<and> fst (snd (snd i)) < length sb \<and>
         snd (snd (snd i)) < length eb)"
    by (cases i) (auto simp: addressed_def)
  assume a: "fst i < 2 \<and> fst (snd i) = k \<and> fst (snd (snd i)) < length sb \<and>
         snd (snd (snd i)) < length eb"
  then have c: "fst i < 2" by simp
  have f: "in_cell sb eb k i =
        (\<lambda>p. (fst i = 0) = fst p \<and> in_bucket (sb ! fst (snd (snd i))) (fst (snd p)) \<and>
              in_bucket (eb ! snd (snd (snd i))) (snd (snd p)))"
    using a by (cases i) (auto simp: in_cell_def fun_eq_iff)
  show "fsum ops (cell_errors sb eb k (zip close (zip speeds errs)) i) =
        fsum ops (bucket_errors ([close, map Not close] ! fst i) speeds errs
                    (sb ! fst (snd (snd i))) (eb ! snd (snd (snd i))))"
    unfolding bucket_errors_points [OF assms c] cell_errors_def f ..
  show "cell_count sb eb k (zip close (zip speeds errs)) i =
        bucket_count ([close, map Not close] ! fst i) speeds errs
          (sb ! fst (snd (snd i))) (eb ! snd (snd (snd i)))"
    unfolding bucket_count_points [OF assms c] cell_count_def f ..
qed

lemma points_lengths:
  assumes "shapes_pass pc rf gt"
  shows "length (is_close_mask m pc) = length (gt_speeds m gt)"
    and "length (gt_speeds m gt) = length (endpoint_errors rf gt)"
  using assms
  by (simp_all add: shapes_pass_def shape_def is_close_mask_def gt_speeds_def endpoint_errors_def)

lemma update_class_error_cells:
  assumes "shapes_pass pc rf gt" and "class_id_to_index_map m cid = Some k"
  shows "update_class_error ops m pc cid rf gt =
         Inr (m\<lparr> per_class_bucketed_error_sum :=
                    (\<lambda>i. if addressed (speed_bucket_bounds m) (epe_bucket_bounds m) k i
                          then fadd ops (per_class_bucketed_error_sum m i)
                                 (fsum ops (cell_errors (speed_bucket_bounds m) (epe_bucket_bounds m) k
                                              (points m pc rf gt) i))
                          else per_class_bucketed_error_sum m i),
                 per_class_bucketed_error_count :=
                    (\<lambda>i. per_class_bucketed_error_count m i +
                          cell_count (speed_bucket_bounds m) (epe_bucket_bounds m) k
                            (points m pc rf gt) i) \<rparr>)"
proof -
  let ?sb = "speed_bucket_bounds m" and ?eb = "epe_bucket_bounds m"
  let ?P = "zip (is_close_mask m pc) (zip (gt_speeds m gt) (endpoint_errors rf gt))"
  have c: "(if addressed ?sb ?eb k i
            then per_class_bucketed_error_count m i + cell_count ?sb ?eb k ?P i
            else per_class_bucketed_error_count m i) =
           per_class_bucketed_error_count m i + cell_count ?sb ?eb k ?P i" for i
    by (simp add: cell_count_not_addressed)
  show ?thesis
    unfolding points_def
    using assms close_loop_touches [OF points_lengths [OF assms(1), of m], of ops k ?sb ?eb]
    by (simp add: update_class_error_def touches_def c)
qed

section \<open>Cells and points\<close>

lemma exact_ops_fields [simp]:
  "fadd exact_ops = (+)" "fsum exact_ops = sum_list"
  by (simp_all add: exact_ops_def)

lemma binary32_ops_fields [simp]:
  "fadd binary32_ops = binary32_add" "fsum binary32_ops = foldl binary32_add 0"
  by (simp_all add: binary32_ops_def)

lemma binary32_add_zero [simp]: "binary32_add x 0 = x" "binary32_add 0 y = y"
  by (simp_all add: binary32_add_def)

lemma cell_errors_Nil [simp]: "cell_errors sb eb k [] i = []"
  by (simp add: cell_errors_def)

lemma cell_errors_Cons:
  "cell_errors sb eb k (p # ps) i =
     (if in_cell sb eb k i p then [snd (snd p)] else []) @ cell_errors sb eb k ps i"
  by (simp add: cell_errors_def)

lemma cell_errors_append:
  "cell_errors sb eb k (xs @ ys) i = cell_errors sb eb k xs i @ cell_errors sb eb k ys i"
  by (simp add: cell_errors_def)

lemma sum_list_cell_errors:
  "sum_list (cell_errors sb eb k ps i) = cell_sum sb eb k ps i"
  by (induction ps) (simp_all add: cell_errors_def cell_sum_def)

lemma length_cell_errors:
  "int (length (cell_errors sb eb k ps i)) = cell_count sb eb k ps i"
  by (simp add: cell_errors_def cell_count_def)

lemma cell_sum_not_addressed:
  "\<not> addressed sb eb k i \<Longrightarrow> cell_sum sb eb k ps i = 0"
  using cell_errors_not_addressed [of sb eb k i ps] sum_list_cell_errors [of sb eb k ps i]
  by simp

lemma update_class_error_closed:
  assumes "shapes_pass pc rf gt" and "class_id_to_index_map m cid = Some k"
  shows "update_class_error exact_ops m pc cid rf gt =
         Inr (m\<lparr> per_class_bucketed_error_sum :=
                    (\<lambda>i. per_class_bucketed_error_sum m i +
                          cell_sum (speed_bucket_bounds m) (epe_bucket_bounds m) k (points m pc rf gt) i),
                 per_class_bucketed_error_count :=
                    (\<lambda>i. per_class_bucketed_error_count m i +
                          cell_count (speed_bucket_bounds m) (epe_bucket_bounds m) k (points m pc rf gt) i) \<rparr>)"
proof -
  have e: "(\<lambda>i. if addressed (speed_bucket_bounds m) (epe_bucket_bounds m) k i
         then fadd exact_ops (per_class_bucketed_error_sum m i)
                (fsum exact_ops (cell_errors (speed_bucket_bounds m) (epe_bucket_bounds m) k
                                   (points m pc rf gt) i))
         else per_class_bucketed_error_sum m i) =
        (\<lambda>i. per_class_bucketed_error_sum m i +
          cell_sum (speed_bucket_bounds m) (epe_bucket_bounds m) k (points m pc rf gt) i)"
    by (auto simp: fun_eq_iff sum_list_cell_errors cell_sum_not_addressed)
  show ?thesis
    unfolding update_class_error_cells [OF assms] e ..
qed

lemma cell_sum_Nil: "cell_sum sb eb k [] i = 0"
  by (simp add: cell_sum_def)

lemma cell_count_Nil: "cell_count sb eb k [] i = 0"
  by (simp add: cell_count_def)

lemma cell_sum_Cons:
  "cell_sum sb eb k (p # ps) i =
     (if in_cell sb eb k i p then snd (snd p) else 0) + cell_sum sb eb k ps i"
  by (simp add: cell_sum_def)

lemma cell_count_Cons:
  "cell_count sb eb k (p # ps) i =
     (if in_cell sb eb k i p then 1 else 0) + cell_count sb eb k ps i"
  by (simp add: cell_count_def)

lemma cell_sum_append:
  "cell_sum sb eb k (xs @ ys) i = cell_sum sb eb k xs i + cell_sum sb eb k ys i"
  by (simp add: cell_sum_def)

lemma cell_count_append:
  "cell_count sb eb k (xs @ ys) i = cell_count sb eb k xs i + cell_count sb eb k ys i"
  by (simp add: cell_count_def)

lemma cell_sum_mset:
  assumes "mset ps = mset qs"
  shows "cell_sum sb eb k ps i = cell_sum sb eb k qs i"
proof -
  let ?f = "\<lambda>p. if in_cell sb eb k i p then snd (snd p) else 0"
  have "sum_mset (mset (map ?f ps)) = sum_mset (mset (map ?f qs))"
    by (simp only: mset_map assms)
  then show ?thesis
    by (simp only: sum_mset_sum_list cell_sum_def)
qed

lemma cell_count_mset:
  assumes "mset ps = mset qs"
  shows "cell_count sb eb k ps i = cell_count sb eb k qs i"
proof -
  have "size (mset (filter (in_cell sb eb k i) ps)) = size (mset (filter (in_cell sb eb k i) qs))"
    using assms by (simp only: mset_filter)
  then show ?thesis
    by (simp only: size_mset cell_count_def)
qed

lemma not_in_cell_speed:
  assumes "\<forall>b\<in>set sb. \<not> in_bucket b (fst (snd p))"
  shows "\<not> in_cell sb eb k i p"
  using assms by (auto simp: in_cell_def split_def)

lemma not_in_cell_error:
  assumes "\<forall>b\<in>set eb. \<not> in_bucket b (snd (snd p))"
  shows "\<not> in_cell sb eb k i p"
  using assms by (auto simp: in_cell_def split_def)

lemma in_cell_unique:
  assumes "sorted (speed_bucket_splits_meters_per_second self)"
    and "sorted (endpoint_error_splits_meters self)"
    and "in_cell (speed_bucket_bounds self) (epe_bucket_bounds self) k i p"
    and "in_cell (speed_bucket_bounds self) (epe_bucket_bounds self) k j p"
  shows "i = j"
proof -
  obtain c k' s e where i: "i = (c, k', s, e)" by (cases i) auto
  obtain c2 k2 s2 e2 where j: "j = (c2, k2, s2, e2)" by (cases j) auto
  obtain cl sp er where p: "p = (cl, sp, er)" by (cases p) auto
  have "s = s2"
    using assms(3,4) bucket_unique [OF assms(1), of s s2 sp]
    by (simp add: i j p in_cell_def speed_bucket_bounds_def)
  moreover have "e = e2"
    using assms(3,4) bucket_unique [OF assms(2), of e e2 er]
    by (simp add: i j p in_cell_def epe_bucket_bounds_def)
  moreover have "c = c2" "k' = k2"
    using assms(3,4) by (auto simp: i j p in_cell_def)
  ultimately show ?thesis by (simp add: i j)
qed

lemma in_cell_exists:
  assumes "\<exists>b\<in>set sb. in_bucket b (fst (snd p))" and "\<exists>b\<in>set eb. in_bucket b (snd (snd p))"
  shows "\<exists>i. in_cell sb eb k i p"
proof -
  from assms(1) obtain s where s: "s < length sb" "in_bucket (sb ! s) (fst (snd p))"
    by (auto simp: in_set_conv_nth)
  from assms(2) obtain e where e: "e < length eb" "in_bucket (eb ! e) (snd (snd p))"
    by (auto simp: in_set_conv_nth)
  have "in_cell sb eb k (if fst p then 0 else 1, k, s, e) p"
    using s e by (simp add: in_cell_def split_def)
  then show ?thesis ..
qed

lemma filter_split_flag:
  "length (filter (\<lambda>p. fst p \<and> Q p) ps) + length (filter (\<lambda>p. \<not> fst p \<and> Q p) ps) =
   length (filter Q ps)"
  by (induction ps) auto

lemma points_eq_map:
  assumes "length ps = length fs" and "length fs = length gs"
  shows "points self \<lparr>ncols = a, rows = ps\<rparr> \<lparr>ncols = b, rows = fs\<rparr> \<lparr>ncols = c, rows = gs\<rparr> =
         map (point_of self) (zip ps (zip fs gs))"
  using assms
  by (induction ps fs gs rule: list_induct3)
     (simp_all add: points_def is_close_mask_def gt_speeds_def endpoint_errors_def point_of_def)

lemma points_rows:
  assumes "shapes_pass pc rf gt"
  shows "points self pc rf gt = map (point_of self) (call_rows (pc, rf, gt))"
proof -
  have 1: "length (rows pc) = length (rows rf)" and 2: "length (rows rf) = length (rows gt)"
    using assms by (simp_all add: shapes_pass_def shape_def)
  have "points self \<lparr>ncols = ncols pc, rows = rows pc\<rparr> \<lparr>ncols = ncols rf, rows = rows rf\<rparr>
          \<lparr>ncols = ncols gt, rows = rows gt\<rparr> = points self pc rf gt"
    by (simp add: points_def is_close_mask_def gt_speeds_def endpoint_errors_def)
  then show ?thesis
    using points_eq_map [OF 1 2, of self "ncols pc" "ncols rf" "ncols gt"]
    by (simp add: call_rows_def)
qed

lemma config_after_add [simp]:
  "speed_bucket_bounds (m\<lparr>per_class_bucketed_error_sum := f, per_class_bucketed_error_count := g\<rparr>)
     = speed_bucket_bounds m"
  "epe_bucket_bounds (m\<lparr>per_class_bucketed_error_sum := f, per_class_bucketed_error_count := g\<rparr>)
     = epe_bucket_bounds m"
  "point_of (m\<lparr>per_class_bucketed_error_sum := f, per_class_bucketed_error_count := g\<rparr>)
     = point_of m"
  by (simp_all add: speed_bucket_bounds_def epe_bucket_bounds_def point_of_def fun_eq_iff)

lemma update_calls_closed:
  assumes "\<forall>call\<in>set calls. call_passes call"
    and "class_id_to_index_map self cid = Some k"
  shows "update_calls exact_ops self cid calls =
         Inr (self\<lparr> per_class_bucketed_error_sum :=
                    (\<lambda>i. per_class_bucketed_error_sum self i +
                          cell_sum (speed_bucket_bounds self) (epe_bucket_bounds self) k
                            (map (point_of self) (concat (map call_rows calls))) i),
                 per_class_bucketed_error_count :=
                    (\<lambda>i. per_class_bucketed_error_count self i +
                          cell_count (speed_bucket_bounds self) (epe_bucket_bounds self) k
                            (map (point_of self) (concat (map call_rows calls))) i) \<rparr>)"
  using assms
proof (induction calls arbitrary: self)
  case Nil
  show ?case by (simp add: cell_sum_Nil cell_count_Nil)
next
  case (Cons call calls)
  obtain pc rf gt where call: "call = (pc, rf, gt)" by (cases call) auto
  have sp: "shapes_pass pc rf gt" using Cons.prems(1) by (simp add: call call_passes_def)
  let ?sb = "speed_bucket_bounds self" and ?eb = "epe_bucket_bounds self"
  let ?P = "map (point_of self) (call_rows (pc, rf, gt))"
  let ?Q = "map (point_of self) (concat (map call_rows calls))"
  let ?self' = "self\<lparr> per_class_bucketed_error_sum :=
                    (\<lambda>i. per_class_bucketed_error_sum self i + cell_sum ?sb ?eb k ?P i),
                 per_class_bucketed_error_count :=
                    (\<lambda>i. per_class_bucketed_error_count self i + cell_count ?sb ?eb k ?P i) \<rparr>"
  have first: "update_class_error exact_ops self pc cid rf gt = Inr ?self'"
    using update_class_error_closed [OF sp Cons.prems(2)] by (simp add: points_rows [OF sp])
  have k': "class_id_to_index_map ?self' cid = Some k" using Cons.prems(2) by simp
  have rest: "update_calls exact_ops ?self' cid calls =
      Inr (?self'\<lparr> per_class_bucketed_error_sum :=
                    (\<lambda>i. per_class_bucketed_error_sum ?self' i + cell_sum ?sb ?eb k ?Q i),
                 per_class_bucketed_error_count :=
                    (\<lambda>i. per_class_bucketed_error_count ?self' i + cell_count ?sb ?eb k ?Q i) \<rparr>)"
    using Cons.IH [of ?self', OF _ k'] Cons.prems(1) by simp
  show ?case
    by (simp add: call first rest cell_sum_append cell_count_append add.assoc)
qed

text \<open>With any arithmetic, a sequence of calls changes the error acc only, and the
  error counts as one call with all the points does.\<close>

lemma update_calls_counts:
  assumes "\<forall>call\<in>set calls. call_passes call"
    and "class_id_to_index_map self cid = Some k"
  shows "\<exists>acc. update_calls ops self cid calls =
         Inr (self\<lparr> per_class_bucketed_error_sum := acc,
                 per_class_bucketed_error_count :=
                    (\<lambda>i. per_class_bucketed_error_count self i +
                          cell_count (speed_bucket_bounds self) (epe_bucket_bounds self) k
                            (map (point_of self) (concat (map call_rows calls))) i) \<rparr>)"
  using assms
proof (induction calls arbitrary: self)
  case Nil
  show ?case
    by (rule exI [of _ "per_class_bucketed_error_sum self"]) (simp add: cell_count_Nil)
next
  case (Cons call calls)
  obtain pc rf gt where call: "call = (pc, rf, gt)" by (cases call) auto
  have sp: "shapes_pass pc rf gt" using Cons.prems(1) by (simp add: call call_passes_def)
  let ?sb = "speed_bucket_bounds self" and ?eb = "epe_bucket_bounds self"
  let ?P = "map (point_of self) (call_rows (pc, rf, gt))"
  let ?Q = "map (point_of self) (concat (map call_rows calls))"
  let ?S = "\<lambda>i. if addressed ?sb ?eb k i
                 then fadd ops (per_class_bucketed_error_sum self i)
                        (fsum ops (cell_errors ?sb ?eb k ?P i))
                 else per_class_bucketed_error_sum self i"
  let ?self' = "self\<lparr> per_class_bucketed_error_sum := ?S,
                 per_class_bucketed_error_count :=
                    (\<lambda>i. per_class_bucketed_error_count self i + cell_count ?sb ?eb k ?P i) \<rparr>"
  have first: "update_class_error ops self pc cid rf gt = Inr ?self'"
    unfolding update_class_error_cells [OF sp Cons.prems(2)] points_rows [OF sp] ..
  have k': "class_id_to_index_map ?self' cid = Some k" using Cons.prems(2) by simp
  have "\<exists>acc. update_calls ops ?self' cid calls =
      Inr (?self'\<lparr> per_class_bucketed_error_sum := acc,
                 per_class_bucketed_error_count :=
                    (\<lambda>i. per_class_bucketed_error_count ?self' i + cell_count ?sb ?eb k ?Q i) \<rparr>)"
    using Cons.IH [of ?self', OF _ k'] Cons.prems(1) by simp
  then obtain acc where rest: "update_calls ops ?self' cid calls =
      Inr (?self'\<lparr> per_class_bucketed_error_sum := acc,
                 per_class_bucketed_error_count :=
                    (\<lambda>i. per_class_bucketed_error_count ?self' i + cell_count ?sb ?eb k ?Q i) \<rparr>)"
    by blast
  show ?case
    by (rule exI [of _ acc])
       (simp add: call first rest cell_count_append add.assoc)
qed

lemma update_class_error_single:
  assumes "shapes_pass pc rf gt" and "class_id_to_index_map m cid = Some k"
    and "neutral_zero ops" and "points m pc rf gt = [p]"
    and "\<And>j. in_cell (speed_bucket_bounds m) (epe_bucket_bounds m) k j p \<longleftrightarrow> j = i"
  shows "update_class_error ops m pc cid rf gt = Inr (add_at ops m i (snd (snd p)) 1)"
proof -
  let ?sb = "speed_bucket_bounds m" and ?eb = "epe_bucket_bounds m"
  from assms(3) have n: "fsum ops [] = 0" "\<And>x. fsum ops [x] = x" "\<And>x. fadd ops x 0 = x"
    by (simp_all add: neutral_zero_def)
  have ai: "addressed ?sb ?eb k i"
    using assms(5) in_cell_addressed by blast
  have s: "(\<lambda>j. if addressed ?sb ?eb k j
                 then fadd ops (per_class_bucketed_error_sum m j)
                        (fsum ops (cell_errors ?sb ?eb k [p] j))
                 else per_class_bucketed_error_sum m j) =
           (per_class_bucketed_error_sum m)
             (i := fadd ops (per_class_bucketed_error_sum m i) (snd (snd p)))"
    using ai by (auto simp: fun_eq_iff cell_errors_Cons assms(5) n)
  have c: "(\<lambda>j. per_class_bucketed_error_count m j + cell_count ?sb ?eb k [p] j) =
           (per_class_bucketed_error_count m)(i := per_class_bucketed_error_count m i + 1)"
    by (auto simp: fun_eq_iff cell_count_Cons cell_count_Nil assms(5))
  show ?thesis
    unfolding update_class_error_cells [OF assms(1,2)] assms(4) s c add_at_def ..
qed

lemma update_class_error_without_point:
  assumes "length pc_before = length rf_before" and "length rf_before = length gt_before"
    and "(\<forall>b\<in>set (speed_bucket_bounds self).
            \<not> in_bucket b (norm_2 g * per_frame_to_per_second_scale_factor self)) \<or>
         (\<forall>b\<in>set (epe_bucket_bounds self). \<not> in_bucket b (norm_2 (map2 (-) r g)))"
  shows "update_class_error ops self
           \<lparr>ncols = n, rows = pc_before @ p # pc_after\<rparr> class_id
           \<lparr>ncols = n', rows = rf_before @ r # rf_after\<rparr>
           \<lparr>ncols = n'', rows = gt_before @ g # gt_after\<rparr> =
         update_class_error ops self
           \<lparr>ncols = n, rows = pc_before @ pc_after\<rparr> class_id
           \<lparr>ncols = n', rows = rf_before @ rf_after\<rparr>
           \<lparr>ncols = n'', rows = gt_before @ gt_after\<rparr>"
    (is "update_class_error ops self ?pc class_id ?rf ?gt =
         update_class_error ops self ?pc' class_id ?rf' ?gt'")
proof -
  have sp: "shapes_pass ?pc ?rf ?gt = shapes_pass ?pc' ?rf' ?gt'"
    by (auto simp: shapes_pass_def shape_def)
  show ?thesis
  proof (cases "shapes_pass ?pc ?rf ?gt")
    case False
    with sp show ?thesis by (simp add: update_class_error_def)
  next
    case True
    with sp have True': "shapes_pass ?pc' ?rf' ?gt'" by simp
    from True have len: "length pc_after = length rf_after" "length rf_after = length gt_after"
      using assms(1,2) by (auto simp: shapes_pass_def shape_def)
    show ?thesis
    proof (cases "class_id_to_index_map self class_id")
      case None
      then show ?thesis using True True' by (simp add: update_class_error_def)
    next
      case (Some k)
      let ?q = "point_of self (p, r, g)"
      let ?A = "map (point_of self) (zip pc_before (zip rf_before gt_before))"
      let ?B = "map (point_of self) (zip pc_after (zip rf_after gt_after))"
      have P: "points self ?pc ?rf ?gt = ?A @ ?q # ?B"
        using assms(1,2) len by (simp add: points_eq_map)
      have P': "points self ?pc' ?rf' ?gt' = ?A @ ?B"
        using assms(1,2) len by (simp add: points_eq_map)
      have q: "\<not> in_cell (speed_bucket_bounds self) (epe_bucket_bounds self) k i ?q" for i
        using assms(3) not_in_cell_speed [of "speed_bucket_bounds self" ?q "epe_bucket_bounds self" k i]
          not_in_cell_error [of "epe_bucket_bounds self" ?q "speed_bucket_bounds self" k i]
        by (auto simp: point_of_def)
      have e: "cell_errors (speed_bucket_bounds self) (epe_bucket_bounds self) k (?A @ ?q # ?B) i =
               cell_errors (speed_bucket_bounds self) (epe_bucket_bounds self) k (?A @ ?B) i" for i
        by (simp add: cell_errors_append cell_errors_Cons q)
      have c: "cell_count (speed_bucket_bounds self) (epe_bucket_bounds self) k (?A @ ?q # ?B) i =
               cell_count (speed_bucket_bounds self) (epe_bucket_bounds self) k (?A @ ?B) i" for i
        by (simp add: cell_count_append cell_count_Cons q)
      show ?thesis
        unfolding update_class_error_cells [OF True Some] update_class_error_cells [OF True' Some]
          P P' e c ..
    qed
  qed
qed

section \<open>The cells a call addresses lie inside the allocated shape\<close>

lemma init_class_index_bound:
  assumes "distinct (map fst tbl)"
    and "class_id_to_index_map (init tbl ss es thr sc) cid = Some k"
  shows "k < length tbl"
proof (cases "cid \<in> fst ` set tbl")
  case True
  then obtain i where i: "i < length tbl" and c: "cid = fst (tbl ! i)"
    by (auto simp: in_set_conv_nth)
  from init_class_index [OF assms(1) i, of ss es thr sc] assms(2) c have "k = i" by simp
  with i show ?thesis by simp
next
  case False
  from init_class_absent [OF False, of ss es thr sc] assms(2) show ?thesis by simp
qed

lemma addressed_inside:
  assumes "addressed sb eb k i" and "k < n"
  shows "inside (2, n, length sb, length eb) i"
  using assms by (cases i) (auto simp: addressed_def inside_def)

lemma update_class_error_inside_shape:
  assumes "distinct (map fst tbl)"
    and "class_id_to_index_map self = class_id_to_index_map (init tbl ss es thr sc)"
    and "update_class_error ops self pc class_id regressed_flow gt_flow = Inr self'"
    and "\<not> inside (accumulator_shape tbl self) i"
  shows "per_class_bucketed_error_sum self' i = per_class_bucketed_error_sum self i"
    and "per_class_bucketed_error_count self' i = per_class_bucketed_error_count self i"
proof -
  from assms(3) have sp: "shapes_pass pc regressed_flow gt_flow"
    by (auto simp: update_class_error_def split: if_splits)
  from assms(3) sp obtain k where k: "class_id_to_index_map self class_id = Some k"
    by (auto simp: update_class_error_def split: option.splits)
  have kn: "k < length tbl"
    using init_class_index_bound [OF assms(1), of ss es thr sc class_id k] k assms(2) by simp
  have no: "\<not> addressed (speed_bucket_bounds self) (epe_bucket_bounds self) k i"
    using addressed_inside [OF _ kn, of "speed_bucket_bounds self" "epe_bucket_bounds self" i]
      assms(4)
    by (auto simp: accumulator_shape_def)
  show "per_class_bucketed_error_sum self' i = per_class_bucketed_error_sum self i"
    and "per_class_bucketed_error_count self' i = per_class_bucketed_error_count self i"
    using assms(3) update_class_error_cells [OF sp k, of ops] no
    by (auto simp: cell_count_not_addressed)
qed

section \<open>The shape check\<close>

lemma shapes_pass_iff:
  "shapes_pass pc regressed_flow gt_flow \<longleftrightarrow>
     length (rows regressed_flow) = length (rows gt_flow) \<and>
     ncols regressed_flow = ncols gt_flow \<and>
     length (rows regressed_flow) = length (rows pc) \<and>
     ncols pc = 3"
  by (auto simp: shapes_pass_def shape_def)

lemma shapes_pass_valid:
  assumes "shape pc = (n, 3)" and "shape regressed_flow = (n, 3)" and "shape gt_flow = (n, 3)"
  shows "shapes_pass pc regressed_flow gt_flow"
  using assms by (simp add: shapes_pass_def)

lemma update_class_error_shape_failure:
  assumes "\<not> shapes_pass pc regressed_flow gt_flow"
  shows "update_class_error ops self pc class_id regressed_flow gt_flow = Inl (ShapeMismatch, self)"
  using assms by (simp add: update_class_error_def)

section \<open>Binary32 addition\<close>

lemma neutral_zero_exact: "neutral_zero exact_ops"
  by (simp add: neutral_zero_def)

lemma neutral_zero_binary32: "neutral_zero binary32_ops"
  by (simp add: neutral_zero_def)

lemma binary32_add_commute: "binary32_add x y = binary32_add y x"
  by (simp add: binary32_add_def add.commute)

lemma binary32_sum_two: "foldl binary32_add 0 [x, y] = binary32_add x y"
  by simp

text \<open>Rounding a number of the binade \<open>[2^e, 2^(e+1))\<close>, whose binary32 numbers are the
  multiples of \<open>u = 2^(e-23)\<close>.\<close>

lemma binary32_round_binade:
  fixes x u :: real
  assumes "u = 2 powr of_int (e - 23)" and "- 126 \<le> e"
    and "2 ^ 23 * u \<le> x" and "x < 2 ^ 24 * u"
  shows "binary32_round x = of_int (round_half_even (x / u)) * u"
proof -
  have u0: "0 < u" using assms(1) by simp
  have lo: "(2::real) powr of_int e = 2 ^ 23 * u"
  proof -
    have "(2::real) powr of_int e = 2 powr (of_int (e - 23) + 23)" by simp
    also have "\<dots> = 2 powr of_int (e - 23) * 2 powr 23" by (simp only: powr_add)
    also have "\<dots> = 2 ^ 23 * u" using assms(1) by (simp add: powr_numeral)
    finally show ?thesis .
  qed
  have hi: "(2::real) powr of_int (e + 1) = 2 ^ 24 * u"
  proof -
    have "(2::real) powr of_int (e + 1) = 2 powr (of_int (e - 23) + 24)"
      by (simp add: add.commute)
    also have "\<dots> = 2 powr of_int (e - 23) * 2 powr 24" by (simp only: powr_add)
    also have "\<dots> = 2 ^ 24 * u" using assms(1) by (simp add: powr_numeral)
    finally show ?thesis .
  qed
  have x0: "0 < x" using assms(3) u0 by (smt (verit) mult_pos_pos zero_less_power)
  have "\<lfloor>log 2 x\<rfloor> = e"
    using x0 assms(3,4) lo hi by (simp add: floor_log_eq_powr_iff)
  then have "\<lfloor>log 2 \<bar>x\<bar>\<rfloor> = e" using x0 by simp
  then show ?thesis
    using x0 assms(1,2) by (simp add: binary32_round_def Let_def max_def)
qed

lemma unit_24: "(1/16777216 :: real) = 2 powr of_int (- 1 - 23)"
  by (simp add: powr_minus powr_numeral divide_simps)

lemma unit_47: "(1/140737488355328 :: real) = 2 powr of_int (- 24 - 23)"
  by (simp add: powr_minus powr_numeral divide_simps)

lemma unit_22: "(1/4194304 :: real) = 2 powr of_int (1 - 23)"
  by (simp add: powr_minus powr_numeral divide_simps)

text \<open>Three sums: \<open>1/2 + 2^-25\<close> lies half-way between \<open>1/2\<close> and its successor
  \<open>1/2 + 2^-24\<close> and is rounded to \<open>1/2\<close>, whose significand is even; the other two
  sums are binary32 numbers.\<close>

lemma binary32_half_plus_tiny: "binary32_add (1/2) (1/33554432) = 1/2"
proof -
  have "binary32_round (1/2 + 1/33554432) =
        of_int (round_half_even ((1/2 + 1/33554432) / (1/16777216))) * (1/16777216)"
    by (rule binary32_round_binade [OF unit_24]) simp_all
  moreover have "round_half_even ((1/2 + 1/33554432) / (1/16777216 :: real)) = 8388608"
    by (simp add: round_half_even_def Let_def)
  ultimately show ?thesis by (simp add: binary32_add_def)
qed

lemma binary32_tiny_plus_tiny: "binary32_add (1/33554432) (1/33554432) = 1/16777216"
proof -
  have "binary32_round (1/33554432 + 1/33554432) =
        of_int (round_half_even ((1/33554432 + 1/33554432) / (1/140737488355328))) *
          (1/140737488355328)"
    by (rule binary32_round_binade [OF unit_47]) simp_all
  moreover have "round_half_even ((1/33554432 + 1/33554432) / (1/140737488355328 :: real)) = 8388608"
    by (simp add: round_half_even_def Let_def)
  ultimately show ?thesis by (simp add: binary32_add_def)
qed

lemma binary32_half_plus_two_tiny: "binary32_add (1/2) (1/16777216) = 8388609/16777216"
proof -
  have "binary32_round (1/2 + 1/16777216) =
        of_int (round_half_even ((1/2 + 1/16777216) / (1/16777216))) * (1/16777216)"
    by (rule binary32_round_binade [OF unit_24]) simp_all
  moreover have "round_half_even ((1/2 + 1/16777216) / (1/16777216 :: real)) = 8388609"
    by (simp add: round_half_even_def Let_def)
  ultimately show ?thesis by (simp add: binary32_add_def)
qed

lemma binary32_half_plus_three_halves: "binary32_add (1/2) (3/2) = 2"
proof -
  have "binary32_round (1/2 + 3/2) =
        of_int (round_half_even ((1/2 + 3/2) / (1/4194304))) * (1/4194304)"
    by (rule binary32_round_binade [OF unit_22]) simp_all
  moreover have "round_half_even ((1/2 + 3/2) / (1/4194304 :: real)) = 8388608"
    by (simp add: round_half_even_def Let_def)
  ultimately show ?thesis by (simp add: binary32_add_def)
qed

section \<open>Evaluation of the examples\<close>

lemma norm_2_x_axis: "norm_2 [x, 0, 0] = \<bar>x\<bar>"
  by (simp add: norm_2_def)

lemma norm_2_x_axis2: "norm_2 [x, 0] = \<bar>x\<bar>"
  by (simp add: norm_2_def)

lemma norm_inf_pair: "norm_inf [x, y] = max \<bar>x\<bar> \<bar>y\<bar>"
  by (simp add: norm_inf_def max_def)

lemma example_metric_fields:
  "class_id_to_index_map example_metric 0 = Some 0"
  "class_id_to_index_map example_metric 1 = Some 1"
  "class_id_to_index_map example_metric 7 = None"
  "speed_bucket_splits_meters_per_second example_metric = [0, 5, 10]"
  "endpoint_error_splits_meters example_metric = [0, 1]"
  "speed_bucket_bounds example_metric = [(0, 5), (5, 10)]"
  "epe_bucket_bounds example_metric = [(0, 1)]"
  "close_object_threshold_meters example_metric = 35"
  "per_frame_to_per_second_scale_factor example_metric = 10"
  "per_class_bucketed_error_sum example_metric = (\<lambda>_. 0)"
  "per_class_bucketed_error_count example_metric = (\<lambda>_. 0)"
  "total_forward_time example_metric = 0"
  "total_forward_count example_metric = 0"
  by (simp_all add: example_metric_def init_def index_maps_def index_step_pair speed_bucket_bounds_def
        epe_bucket_bounds_def bucket_bounds_def)

lemma example_points:
  "points example_metric example_pc example_regressed_flow example_gt_flow =
     [(True, 5/4, 1/8), (False, 15/2, 1/8)]"
  by (simp add: points_def is_close_mask_def gt_speeds_def endpoint_errors_def
        example_pc_def example_regressed_flow_def example_gt_flow_def
        example_metric_fields norm_2_x_axis norm_inf_pair)

section \<open>Gathering\<close>

lemma map_update_own: "(map h xs)[i := h (xs ! i)] = map h xs"
  by (simp add: map_update [symmetric])

lemma gather_world:
  assumes "rank < length world"
  shows "gather ops (world ! rank) (all_gather (map tensors_of world) rank) =
         world_totals ops world"
proof -
  have 1: "(map (\<lambda>m. per_class_bucketed_error_sum m) world)
             [rank := per_class_bucketed_error_sum (world ! rank)]
           = map per_class_bucketed_error_sum world"
    by (rule map_update_own)
  have 2: "(map (\<lambda>m. per_class_bucketed_error_count m) world)
             [rank := per_class_bucketed_error_count (world ! rank)]
           = map per_class_bucketed_error_count world"
    by (rule map_update_own)
  have 3: "(map (\<lambda>m. total_forward_time m) world)[rank := total_forward_time (world ! rank)]
           = map total_forward_time world"
    by (rule map_update_own)
  have 4: "(map (\<lambda>m. total_forward_count m) world)[rank := total_forward_count (world ! rank)]
           = map total_forward_count world"
    by (rule map_update_own)
  show ?thesis
    by (simp add: gather_def all_gather_def world_totals_def tensors_of_def comp_def 1 2 3 4)
qed

lemma gather_two:
  "gather ops a (all_gather [tensors_of a, tensors_of b] 0) = world_totals ops [a, b]"
  using gather_world [of 0 "[a, b]"] by simp

lemma gather_three:
  "gather ops a (all_gather [tensors_of a, tensors_of b, tensors_of c] 0) =
   world_totals ops [a, b, c]"
  using gather_world [of 0 "[a, b, c]"] by simp

lemma validation_epoch_end_fields:
  "metric_after (validation_epoch_end ops g r self) = reset self"
  "gathered_error_sum (validation_epoch_end ops g r self) = fst (gather ops self g)"
  "gathered_error_count (validation_epoch_end ops g r self) = fst (snd (gather ops self g))"
  "gathered_forward_time (validation_epoch_end ops g r self) = fst (snd (snd (gather ops self g)))"
  "gathered_forward_count (validation_epoch_end ops g r self) = snd (snd (snd (gather ops self g)))"
  "validation_result_dict (validation_epoch_end ops g r self) =
     (if r \<noteq> 0 then None
      else Some \<lparr> result_error_sum = fst (gather ops self g),
                  result_error_count = fst (snd (gather ops self g)),
                  average_forward_time =
                    torch_div (fst (snd (snd (gather ops self g))))
                      (snd (snd (snd (gather ops self g)))) \<rparr>)"
  by (simp_all add: validation_epoch_end_def Let_def split_def)

lemma sum_list_map_mset:
  fixes f :: "'a \<Rightarrow> 'b::comm_monoid_add"
  assumes "mset xs = mset ys"
  shows "sum_list (map f xs) = sum_list (map f ys)"
proof -
  have "sum_mset (mset (map f xs)) = sum_mset (mset (map f ys))"
    by (simp only: mset_map assms)
  then show ?thesis by (simp only: sum_mset_sum_list)
qed

lemma sum_dim0_map_mset:
  assumes "mset xs = mset ys"
  shows "sum_dim0 (map f xs) = sum_dim0 (map f ys)"
  using sum_list_map_mset [OF assms, of "\<lambda>m. f m i" for i]
  by (simp add: sum_dim0_def comp_def)

lemma fsum_dim0_exact_map_mset:
  assumes "mset xs = mset ys"
  shows "fsum_dim0 exact_ops (map f xs) = fsum_dim0 exact_ops (map f ys)"
  using sum_list_map_mset [OF assms, of "\<lambda>m. f m i" for i]
  by (simp add: fsum_dim0_def comp_def)

lemma world_totals_mset:
  assumes "mset world = mset world'"
  shows "world_totals exact_ops world = world_totals exact_ops world'"
  by (simp add: world_totals_def sum_dim0_map_mset [OF assms] fsum_dim0_exact_map_mset [OF assms]
        sum_list_map_mset [OF assms])

lemma world_counts_mset:
  assumes "mset world = mset world'"
  shows "fst (snd (world_totals ops world)) = fst (snd (world_totals ops world'))"
    and "snd (snd (snd (world_totals ops world))) = snd (snd (snd (world_totals ops world')))"
  by (simp_all add: world_totals_def sum_dim0_map_mset [OF assms] sum_list_map_mset [OF assms])

lemma merge_fields:
  "per_class_bucketed_error_sum (merge ops a b) =
     (\<lambda>i. fsum ops [per_class_bucketed_error_sum a i, per_class_bucketed_error_sum b i])"
  "per_class_bucketed_error_count (merge ops a b) =
     (\<lambda>i. per_class_bucketed_error_count a i + per_class_bucketed_error_count b i)"
  "total_forward_time (merge ops a b) = fsum ops [total_forward_time a, total_forward_time b]"
  "total_forward_count (merge ops a b) = total_forward_count a + total_forward_count b"
  unfolding merge_def gather_two
  by (simp_all add: with_tensors_def world_totals_def sum_dim0_def fsum_dim0_def)

lemma merge_config [simp]:
  "class_id_to_index_map (merge ops a b) = class_id_to_index_map a"
  "speed_bucket_splits_meters_per_second (merge ops a b) = speed_bucket_splits_meters_per_second a"
  "endpoint_error_splits_meters (merge ops a b) = endpoint_error_splits_meters a"
  unfolding merge_def gather_two
  by (simp_all add: with_tensors_def world_totals_def)

section \<open>Schedules keep the processes consistent\<close>

lemma those_Some_nth:
  "those xs = Some ys \<Longrightarrow> length ys = length xs \<and> (\<forall>i < length xs. xs ! i = Some (ys ! i))"
proof (induction xs arbitrary: ys)
  case Nil
  then show ?case by simp
next
  case (Cons x xs)
  from Cons.prems obtain y zs where x: "x = Some y" and zs: "those xs = Some zs"
    and ys: "ys = y # zs"
    by (auto split: option.splits)
  from Cons.IH [OF zs] show ?case
    by (simp add: x ys nth_Cons')
qed

lemma consistent_start: "consistent ops world (start world)"
  by (simp add: consistent_def start_def process_ok_def)

lemma consistent_nth:
  assumes "consistent ops world ps" and "rank < length ps"
  shows "process_ok ops world rank (ps ! rank)" and "rank < length world"
  using assms by (simp_all add: consistent_def)

lemma consistent_update:
  assumes "consistent ops world ps" and "rank < length ps" and "process_ok ops world rank p"
  shows "consistent ops world (ps[rank := p])"
  using assms by (simp add: consistent_def nth_list_update)

lemma consistent_contributions:
  assumes "consistent ops world ps" and "those (map contribution ps) = Some cs"
  shows "cs = map tensors_of world"
proof (rule nth_equalityI)
  note n = those_Some_nth [OF assms(2)]
  from n have len: "length cs = length ps" by simp
  then have lenw: "length cs = length world" using assms(1) by (simp add: consistent_def)
  then show "length cs = length (map tensors_of world)" by simp
  fix r assume r: "r < length cs"
  from n r len have c: "contribution (ps ! r) = Some (cs ! r)" by simp
  have "process_ok ops world r (ps ! r)"
    using consistent_nth(1) [OF assms(1)] r len by simp
  then have "contribution (ps ! r) =
      (if location (ps ! r) = Before_gather then None else Some (tensors_of (world ! r)))"
    by (simp add: process_ok_def)
  with c have "cs ! r = tensors_of (world ! r)"
    by (simp split: if_splits)
  then show "cs ! r = map tensors_of world ! r" using r lenw by simp
qed

lemma consistent_step:
  assumes "consistent ops world ps" and "step ops ps e = Some ps'"
  shows "consistent ops world ps'"
proof (cases e)
  case (Enter rank)
  with assms(2) have r: "rank < length ps" and l: "location (ps ! rank) = Before_gather"
    and ps': "ps' = ps[rank := (ps ! rank)\<lparr> location := In_gather,
                 contribution := Some (tensors_of (metric_of (ps ! rank))) \<rparr>]"
    by (auto split: if_splits)
  have "process_ok ops world rank ((ps ! rank)\<lparr> location := In_gather,
          contribution := Some (tensors_of (metric_of (ps ! rank))) \<rparr>)"
    using consistent_nth(1) [OF assms(1) r] l by (simp add: process_ok_def)
  then show ?thesis
    unfolding ps' by (rule consistent_update [OF assms(1) r])
next
  case (Leave rank)
  with assms(2) obtain cs where r: "rank < length ps" and l: "location (ps ! rank) = In_gather"
    and cs: "those (map contribution ps) = Some cs"
    and ps': "ps' = ps[rank := (ps ! rank)\<lparr> location := Before_reset,
                 gathered := Some (gather ops (metric_of (ps ! rank)) (all_gather cs rank)) \<rparr>]"
    by (auto split: if_splits option.splits)
  have rw: "rank < length world" by (rule consistent_nth(2) [OF assms(1) r])
  have c: "cs = map tensors_of world" by (rule consistent_contributions [OF assms(1) cs])
  have m: "metric_of (ps ! rank) = world ! rank"
    using consistent_nth(1) [OF assms(1) r] l by (simp add: process_ok_def)
  have "process_ok ops world rank ((ps ! rank)\<lparr> location := Before_reset,
          gathered := Some (gather ops (metric_of (ps ! rank)) (all_gather cs rank)) \<rparr>)"
    unfolding m c gather_world [OF rw]
    using consistent_nth(1) [OF assms(1) r] l by (simp add: process_ok_def)
  then show ?thesis
    unfolding ps' by (rule consistent_update [OF assms(1) r])
next
  case (Reset rank)
  with assms(2) have r: "rank < length ps" and l: "location (ps ! rank) = Before_reset"
    and ps': "ps' = ps[rank := (ps ! rank)\<lparr> location := After_reset,
                 metric_of := reset (metric_of (ps ! rank)) \<rparr>]"
    by (auto split: if_splits)
  have "process_ok ops world rank ((ps ! rank)\<lparr> location := After_reset,
          metric_of := reset (metric_of (ps ! rank)) \<rparr>)"
    using consistent_nth(1) [OF assms(1) r] l by (simp add: process_ok_def)
  then show ?thesis
    unfolding ps' by (rule consistent_update [OF assms(1) r])
qed

lemma consistent_run:
  assumes "consistent ops world ps" and "run ops ps schedule = Some ps'"
  shows "consistent ops world ps'"
  using assms
proof (induction schedule arbitrary: ps)
  case Nil
  then show ?case by simp
next
  case (Cons e es)
  from Cons.prems(2) obtain ps1 where 1: "step ops ps e = Some ps1" and 2: "run ops ps1 es = Some ps'"
    by (auto split: option.splits)
  show ?case by (rule Cons.IH [OF consistent_step [OF Cons.prems(1) 1] 2])
qed

section \<open>Claim C1: what a call adds, point by point\<close>

lemma update_class_error_fields:
  assumes "shapes_pass pc rf gt" and "class_id_to_index_map m cid = Some k"
  shows "\<exists>m'. update_class_error ops m pc cid rf gt = Inr m' \<and>
           (\<forall>i. per_class_bucketed_error_sum m' i =
                  (if addressed (speed_bucket_bounds m) (epe_bucket_bounds m) k i
                   then fadd ops (per_class_bucketed_error_sum m i)
                          (fsum ops (cell_errors (speed_bucket_bounds m) (epe_bucket_bounds m) k
                                       (points m pc rf gt) i))
                   else per_class_bucketed_error_sum m i)) \<and>
           (\<forall>i. per_class_bucketed_error_count m' i =
                  per_class_bucketed_error_count m i +
                  cell_count (speed_bucket_bounds m) (epe_bucket_bounds m) k (points m pc rf gt) i) \<and>
           class_id_to_index_map m' = class_id_to_index_map m \<and>
           speed_bucket_bounds m' = speed_bucket_bounds m \<and>
           epe_bucket_bounds m' = epe_bucket_bounds m \<and>
           close_object_threshold_meters m' = close_object_threshold_meters m \<and>
           per_frame_to_per_second_scale_factor m' = per_frame_to_per_second_scale_factor m"
  unfolding update_class_error_cells [OF assms] by simp

lemma close_still_point:
  assumes "close_object_threshold_meters m = 35"
    and "per_frame_to_per_second_scale_factor m = 10" and "0 \<le> e"
  shows "points m \<lparr>ncols = 3, rows = [[1, 2, 0]]\<rparr> \<lparr>ncols = 3, rows = [[e, 0, 0]]\<rparr>
           \<lparr>ncols = 3, rows = [[0, 0, 0]]\<rparr> = [(True, 0, e)]"
  using assms
  by (simp add: points_def is_close_mask_def gt_speeds_def endpoint_errors_def
        norm_2_x_axis norm_inf_pair)

lemma close_still_points:
  assumes "close_object_threshold_meters m = 35"
    and "per_frame_to_per_second_scale_factor m = 10" and "0 \<le> e" and "0 \<le> e'"
  shows "points m \<lparr>ncols = 3, rows = [[1, 2, 0], [1, 2, 0]]\<rparr>
           \<lparr>ncols = 3, rows = [[e, 0, 0], [e', 0, 0]]\<rparr>
           \<lparr>ncols = 3, rows = [[0, 0, 0], [0, 0, 0]]\<rparr> = [(True, 0, e), (True, 0, e')]"
  using assms
  by (simp add: points_def is_close_mask_def gt_speeds_def endpoint_errors_def
        norm_2_x_axis norm_inf_pair)

lemma first_cell:
  "addressed [(0, 5), (5, 10)] [(0, 1)] 0 (0, 0, 0, 0)"
  "0 \<le> e \<Longrightarrow> e < 1 \<Longrightarrow> in_cell [(0, 5), (5, 10)] [(0, 1)] 0 (0, 0, 0, 0) (True, 0, e)"
  by (simp_all add: addressed_def in_cell_def in_bucket_def)

lemma close_still_call:
  assumes "class_id_to_index_map m 0 = Some 0"
    and "speed_bucket_bounds m = [(0, 5), (5, 10)]" and "epe_bucket_bounds m = [(0, 1)]"
    and "close_object_threshold_meters m = 35"
    and "per_frame_to_per_second_scale_factor m = 10" and "0 \<le> e" and "e < 1"
  shows "\<exists>m'. update_class_error ops m \<lparr>ncols = 3, rows = [[1, 2, 0]]\<rparr> 0
                  \<lparr>ncols = 3, rows = [[e, 0, 0]]\<rparr> \<lparr>ncols = 3, rows = [[0, 0, 0]]\<rparr> = Inr m' \<and>
           per_class_bucketed_error_sum m' (0, 0, 0, 0) =
             fadd ops (per_class_bucketed_error_sum m (0, 0, 0, 0)) (fsum ops [e]) \<and>
           per_class_bucketed_error_count m' (0, 0, 0, 0) =
             per_class_bucketed_error_count m (0, 0, 0, 0) + 1 \<and>
           class_id_to_index_map m' 0 = Some 0 \<and>
           speed_bucket_bounds m' = [(0, 5), (5, 10)] \<and> epe_bucket_bounds m' = [(0, 1)] \<and>
           close_object_threshold_meters m' = 35 \<and>
           per_frame_to_per_second_scale_factor m' = 10"
proof -
  have sp: "shapes_pass \<lparr>ncols = 3, rows = [[1, 2, 0]]\<rparr> \<lparr>ncols = 3, rows = [[e, 0, 0]]\<rparr>
              \<lparr>ncols = 3, rows = [[0, 0, 0]]\<rparr>"
    by (simp add: shapes_pass_def shape_def)
  from update_class_error_fields [OF sp assms(1), of ops]
  show ?thesis
    unfolding close_still_point [OF assms(4,5,6)] assms(2,3)
    using assms(1,4,5) first_cell(2) [OF assms(6,7)]
    by (auto simp: first_cell(1) cell_errors_def cell_count_def)
qed

lemma close_still_call_two:
  assumes "class_id_to_index_map m 0 = Some 0"
    and "speed_bucket_bounds m = [(0, 5), (5, 10)]" and "epe_bucket_bounds m = [(0, 1)]"
    and "close_object_threshold_meters m = 35"
    and "per_frame_to_per_second_scale_factor m = 10"
    and "0 \<le> e" and "e < 1" and "0 \<le> e'" and "e' < 1"
  shows "\<exists>m'. update_class_error ops m \<lparr>ncols = 3, rows = [[1, 2, 0], [1, 2, 0]]\<rparr> 0
                  \<lparr>ncols = 3, rows = [[e, 0, 0], [e', 0, 0]]\<rparr>
                  \<lparr>ncols = 3, rows = [[0, 0, 0], [0, 0, 0]]\<rparr> = Inr m' \<and>
           per_class_bucketed_error_sum m' (0, 0, 0, 0) =
             fadd ops (per_class_bucketed_error_sum m (0, 0, 0, 0)) (fsum ops [e, e']) \<and>
           per_class_bucketed_error_count m' (0, 0, 0, 0) =
             per_class_bucketed_error_count m (0, 0, 0, 0) + 2"
proof -
  have sp: "shapes_pass \<lparr>ncols = 3, rows = [[1, 2, 0], [1, 2, 0]]\<rparr>
              \<lparr>ncols = 3, rows = [[e, 0, 0], [e', 0, 0]]\<rparr>
              \<lparr>ncols = 3, rows = [[0, 0, 0], [0, 0, 0]]\<rparr>"
    by (simp add: shapes_pass_def shape_def)
  from update_class_error_fields [OF sp assms(1), of ops]
  show ?thesis
    unfolding close_still_points [OF assms(4,5,6,8)] assms(2,3)
    using first_cell(2) [OF assms(6,7)] first_cell(2) [OF assms(8,9)]
    by (auto simp: first_cell(1) cell_errors_def cell_count_def)
qed

text \<open>
  Claim C1, as stated, fails in its last part: the error sums are binary32 numbers, and
  the sum of the errors of two points, added to a cell, is not what adding the two errors
  one after the other gives. Take the metric object of the example after a first call with
  one close point of class 0, speed 0 and error \<open>1/2\<close>, and two more such points of
  error \<open>2^-25\<close> each. One call per point leaves the cell at \<open>1/2\<close>, since
  \<open>1/2 + 2^-25\<close> is rounded to \<open>1/2\<close> twice; one call with both points adds their sum
  \<open>2^-24\<close> and leaves the cell at \<open>1/2 + 2^-24\<close>. Only sums of two numbers occur:
  the order in which \<^verbatim>\<open>torch.sum\<close> adds plays no role. The counts agree.
\<close>

theorem update_class_error_batched_sum_counterexample:
  "\<exists>m one batched.
     update_class_error binary32_ops example_metric \<lparr>ncols = 3, rows = [[1, 2, 0]]\<rparr> 0
       \<lparr>ncols = 3, rows = [[1/2, 0, 0]]\<rparr> \<lparr>ncols = 3, rows = [[0, 0, 0]]\<rparr> = Inr m \<and>
     update_calls binary32_ops m 0
       [(\<lparr>ncols = 3, rows = [[1, 2, 0]]\<rparr>, \<lparr>ncols = 3, rows = [[1/33554432, 0, 0]]\<rparr>,
         \<lparr>ncols = 3, rows = [[0, 0, 0]]\<rparr>),
        (\<lparr>ncols = 3, rows = [[1, 2, 0]]\<rparr>, \<lparr>ncols = 3, rows = [[1/33554432, 0, 0]]\<rparr>,
         \<lparr>ncols = 3, rows = [[0, 0, 0]]\<rparr>)] = Inr one \<and>
     update_class_error binary32_ops m \<lparr>ncols = 3, rows = [[1, 2, 0], [1, 2, 0]]\<rparr> 0
       \<lparr>ncols = 3, rows = [[1/33554432, 0, 0], [1/33554432, 0, 0]]\<rparr>
       \<lparr>ncols = 3, rows = [[0, 0, 0], [0, 0, 0]]\<rparr> = Inr batched \<and>
     per_class_bucketed_error_sum m (0, 0, 0, 0) = 1/2 \<and>
     per_class_bucketed_error_sum one (0, 0, 0, 0) = 1/2 \<and>
     per_class_bucketed_error_sum batched (0, 0, 0, 0) = 8388609/16777216 \<and>
     per_class_bucketed_error_count one (0, 0, 0, 0) = 3 \<and>
     per_class_bucketed_error_count batched (0, 0, 0, 0) = 3 \<and>
     one \<noteq> batched"
proof -
  let ?pc = "\<lparr>ncols = 3, rows = [[1, 2, 0]]\<rparr>" and ?gt = "\<lparr>ncols = 3, rows = [[0, 0, 0]]\<rparr>"
  let ?tiny = "\<lparr>ncols = 3, rows = [[1/33554432, 0, 0]]\<rparr>"
  obtain m where m: "update_class_error binary32_ops example_metric ?pc 0
        \<lparr>ncols = 3, rows = [[1/2, 0, 0]]\<rparr> ?gt = Inr m"
    and ms: "per_class_bucketed_error_sum m (0, 0, 0, 0) = 1/2"
    and mc: "per_class_bucketed_error_count m (0, 0, 0, 0) = 1"
    and mcfg: "class_id_to_index_map m 0 = Some 0"
      "speed_bucket_bounds m = [(0, 5), (5, 10)]" "epe_bucket_bounds m = [(0, 1)]"
      "close_object_threshold_meters m = 35" "per_frame_to_per_second_scale_factor m = 10"
    using close_still_call [of example_metric "1/2" binary32_ops]
    by (auto simp: example_metric_fields)
  obtain m2 where m2: "update_class_error binary32_ops m ?pc 0 ?tiny ?gt = Inr m2"
    and m2s: "per_class_bucketed_error_sum m2 (0, 0, 0, 0) = 1/2"
    and m2c: "per_class_bucketed_error_count m2 (0, 0, 0, 0) = 2"
    and m2cfg: "class_id_to_index_map m2 0 = Some 0"
      "speed_bucket_bounds m2 = [(0, 5), (5, 10)]" "epe_bucket_bounds m2 = [(0, 1)]"
      "close_object_threshold_meters m2 = 35" "per_frame_to_per_second_scale_factor m2 = 10"
    using close_still_call [OF mcfg, of "1/33554432" binary32_ops] ms mc
    by (auto simp: binary32_half_plus_tiny)
  obtain one where one: "update_class_error binary32_ops m2 ?pc 0 ?tiny ?gt = Inr one"
    and ones: "per_class_bucketed_error_sum one (0, 0, 0, 0) = 1/2"
    and onec: "per_class_bucketed_error_count one (0, 0, 0, 0) = 3"
    using close_still_call [OF m2cfg, of "1/33554432" binary32_ops] m2s m2c
    by (auto simp: binary32_half_plus_tiny)
  obtain batched where batched: "update_class_error binary32_ops m
        \<lparr>ncols = 3, rows = [[1, 2, 0], [1, 2, 0]]\<rparr> 0
        \<lparr>ncols = 3, rows = [[1/33554432, 0, 0], [1/33554432, 0, 0]]\<rparr>
        \<lparr>ncols = 3, rows = [[0, 0, 0], [0, 0, 0]]\<rparr> = Inr batched"
    and batcheds: "per_class_bucketed_error_sum batched (0, 0, 0, 0) = 8388609/16777216"
    and batchedc: "per_class_bucketed_error_count batched (0, 0, 0, 0) = 3"
    using close_still_call_two [OF mcfg, of "1/33554432" "1/33554432" binary32_ops] ms mc
    by (auto simp: binary32_tiny_plus_tiny binary32_half_plus_two_tiny)
  have calls: "update_calls binary32_ops m 0 [(?pc, ?tiny, ?gt), (?pc, ?tiny, ?gt)] = Inr one"
    by (simp add: m2 one)
  have ne: "one \<noteq> batched"
    using ones batcheds by auto
  show ?thesis
    using m calls batched ms ones batcheds onec batchedc ne by blast
qed

text \<open>
  Claim C1, amended. Let a call of \<^verbatim>\<open>update_class_error\<close> pass the assertions, let its
  category id be in the table with index \<open>class_index\<close>, and let the two lists of
  splits be sorted, as the specification requires of the configuration. Then, with any
  arithmetic of the float accumulators,
  \<^item> the call succeeds and returns the metric object with, at every cell it addresses, the
    sum of the errors of the points of the call that lie in the cell added to the error
    sum, with the number of these points added to the error count, and with nothing else
    changed;
  \<^item> every point whose speed and whose error each fall inside some bucket lies in
    exactly one cell, so that its error and its 1 go to that cell and to no other;
  \<^item> a call with a single such point adds the error and 1 at that one cell, when zero is
    neutral for the arithmetic;
  \<^item> processing the same points in several calls, grouped and ordered in any way (one
    point per call, or one call per non-empty cell), gives the same error counts and the
    same state but for the error sums;
  \<^item> and in exact arithmetic it gives the same error sums as well.
\<close>

theorem update_class_error_pointwise:
  assumes "shapes_pass pc regressed_flow gt_flow"
    and "class_id_to_index_map self class_id = Some class_index"
    and "sorted (speed_bucket_splits_meters_per_second self)"
    and "sorted (endpoint_error_splits_meters self)"
  shows
    "(\<forall>ops. update_class_error ops self pc class_id regressed_flow gt_flow =
       Inr (self\<lparr> per_class_bucketed_error_sum :=
                   (\<lambda>i. if addressed (speed_bucket_bounds self) (epe_bucket_bounds self)
                              class_index i
                         then fadd ops (per_class_bucketed_error_sum self i)
                                (fsum ops (cell_errors (speed_bucket_bounds self)
                                   (epe_bucket_bounds self) class_index
                                   (points self pc regressed_flow gt_flow) i))
                         else per_class_bucketed_error_sum self i),
                 per_class_bucketed_error_count :=
                   (\<lambda>i. per_class_bucketed_error_count self i +
                         cell_count (speed_bucket_bounds self) (epe_bucket_bounds self) class_index
                           (points self pc regressed_flow gt_flow) i) \<rparr>)) \<and>
     (\<forall>p\<in>set (points self pc regressed_flow gt_flow).
        (\<exists>b\<in>set (speed_bucket_bounds self). in_bucket b (fst (snd p))) \<and>
        (\<exists>b\<in>set (epe_bucket_bounds self). in_bucket b (snd (snd p))) \<longrightarrow>
        (\<exists>!i. in_cell (speed_bucket_bounds self) (epe_bucket_bounds self) class_index i p)) \<and>
     (\<forall>ops p i. neutral_zero ops \<and> points self pc regressed_flow gt_flow = [p] \<and>
        in_cell (speed_bucket_bounds self) (epe_bucket_bounds self) class_index i p \<longrightarrow>
        update_class_error ops self pc class_id regressed_flow gt_flow =
          Inr (add_at ops self i (snd (snd p)) 1)) \<and>
     (\<forall>ops calls. (\<forall>call\<in>set calls. call_passes call) \<and>
        mset (concat (map call_rows calls)) = mset (call_rows (pc, regressed_flow, gt_flow)) \<longrightarrow>
        (\<exists>several single.
           update_calls ops self class_id calls = Inr several \<and>
           update_class_error ops self pc class_id regressed_flow gt_flow = Inr single \<and>
           per_class_bucketed_error_count several = per_class_bucketed_error_count single \<and>
           several = single\<lparr> per_class_bucketed_error_sum :=
                                per_class_bucketed_error_sum several \<rparr>)) \<and>
     (\<forall>calls. (\<forall>call\<in>set calls. call_passes call) \<and>
        mset (concat (map call_rows calls)) = mset (call_rows (pc, regressed_flow, gt_flow)) \<longrightarrow>
        update_calls exact_ops self class_id calls =
          update_class_error exact_ops self pc class_id regressed_flow gt_flow)"
proof -
  let ?sb = "speed_bucket_bounds self" and ?eb = "epe_bucket_bounds self"
  let ?P = "points self pc regressed_flow gt_flow"
  have cells: "update_class_error ops self pc class_id regressed_flow gt_flow =
       Inr (self\<lparr> per_class_bucketed_error_sum :=
                   (\<lambda>i. if addressed ?sb ?eb class_index i
                         then fadd ops (per_class_bucketed_error_sum self i)
                                (fsum ops (cell_errors ?sb ?eb class_index ?P i))
                         else per_class_bucketed_error_sum self i),
                 per_class_bucketed_error_count :=
                   (\<lambda>i. per_class_bucketed_error_count self i + cell_count ?sb ?eb class_index ?P i) \<rparr>)"
    for ops
    by (rule update_class_error_cells [OF assms(1,2)])
  have closed: "update_class_error exact_ops self pc class_id regressed_flow gt_flow =
       Inr (self\<lparr> per_class_bucketed_error_sum :=
                   (\<lambda>i. per_class_bucketed_error_sum self i + cell_sum ?sb ?eb class_index ?P i),
                 per_class_bucketed_error_count :=
                   (\<lambda>i. per_class_bucketed_error_count self i + cell_count ?sb ?eb class_index ?P i) \<rparr>)"
    by (rule update_class_error_closed [OF assms(1,2)])
  have uniq: "\<forall>p\<in>set ?P.
        (\<exists>b\<in>set ?sb. in_bucket b (fst (snd p))) \<and> (\<exists>b\<in>set ?eb. in_bucket b (snd (snd p))) \<longrightarrow>
        (\<exists>!i. in_cell ?sb ?eb class_index i p)"
  proof (intro ballI impI)
    fix p :: "bool \<times> real \<times> real"
    assume "(\<exists>b\<in>set ?sb. in_bucket b (fst (snd p))) \<and> (\<exists>b\<in>set ?eb. in_bucket b (snd (snd p)))"
    then have "\<exists>i. in_cell ?sb ?eb class_index i p"
      using in_cell_exists by blast
    then show "\<exists>!i. in_cell ?sb ?eb class_index i p"
      using in_cell_unique [OF assms(3,4)] by blast
  qed
  have one: "\<forall>ops p i. neutral_zero ops \<and> ?P = [p] \<and> in_cell ?sb ?eb class_index i p \<longrightarrow>
        update_class_error ops self pc class_id regressed_flow gt_flow =
          Inr (add_at ops self i (snd (snd p)) 1)"
  proof (intro allI impI)
    fix ops and p :: "bool \<times> real \<times> real" and i :: idx
    assume a: "neutral_zero ops \<and> ?P = [p] \<and> in_cell ?sb ?eb class_index i p"
    then have P: "?P = [p]" and n: "neutral_zero ops" by simp_all
    have iff: "in_cell ?sb ?eb class_index j p \<longleftrightarrow> j = i" for j
      using a in_cell_unique [OF assms(3,4)] by blast
    show "update_class_error ops self pc class_id regressed_flow gt_flow =
          Inr (add_at ops self i (snd (snd p)) 1)"
      by (rule update_class_error_single [OF assms(1,2) n P iff])
  qed
  have counts: "\<forall>ops calls. (\<forall>call\<in>set calls. call_passes call) \<and>
        mset (concat (map call_rows calls)) = mset (call_rows (pc, regressed_flow, gt_flow)) \<longrightarrow>
        (\<exists>several single.
           update_calls ops self class_id calls = Inr several \<and>
           update_class_error ops self pc class_id regressed_flow gt_flow = Inr single \<and>
           per_class_bucketed_error_count several = per_class_bucketed_error_count single \<and>
           several = single\<lparr> per_class_bucketed_error_sum :=
                                per_class_bucketed_error_sum several \<rparr>)"
  proof (intro allI impI)
    fix ops and calls :: "(tensor2 \<times> tensor2 \<times> tensor2) list"
    assume a: "(\<forall>call\<in>set calls. call_passes call) \<and>
        mset (concat (map call_rows calls)) = mset (call_rows (pc, regressed_flow, gt_flow))"
    let ?Q = "map (point_of self) (concat (map call_rows calls))"
    have "mset ?Q = mset ?P"
      using a by (simp add: points_rows [OF assms(1)])
    then have cq: "cell_count ?sb ?eb class_index ?Q i = cell_count ?sb ?eb class_index ?P i" for i
      by (rule cell_count_mset)
    from a have "\<forall>call\<in>set calls. call_passes call" by simp
    from update_calls_counts [OF this assms(2), of ops]
    obtain acc where s: "update_calls ops self class_id calls =
         Inr (self\<lparr> per_class_bucketed_error_sum := acc,
                 per_class_bucketed_error_count :=
                    (\<lambda>i. per_class_bucketed_error_count self i + cell_count ?sb ?eb class_index ?P i) \<rparr>)"
      unfolding cq by blast
    show "\<exists>several single.
           update_calls ops self class_id calls = Inr several \<and>
           update_class_error ops self pc class_id regressed_flow gt_flow = Inr single \<and>
           per_class_bucketed_error_count several = per_class_bucketed_error_count single \<and>
           several = single\<lparr> per_class_bucketed_error_sum :=
                                per_class_bucketed_error_sum several \<rparr>"
      unfolding s cells by simp
  qed
  have chunks: "\<forall>calls. (\<forall>call\<in>set calls. call_passes call) \<and>
        mset (concat (map call_rows calls)) = mset (call_rows (pc, regressed_flow, gt_flow)) \<longrightarrow>
        update_calls exact_ops self class_id calls =
          update_class_error exact_ops self pc class_id regressed_flow gt_flow"
  proof (intro allI impI)
    fix calls :: "(tensor2 \<times> tensor2 \<times> tensor2) list"
    assume a: "(\<forall>call\<in>set calls. call_passes call) \<and>
        mset (concat (map call_rows calls)) = mset (call_rows (pc, regressed_flow, gt_flow))"
    let ?Q = "map (point_of self) (concat (map call_rows calls))"
    have "mset ?Q = mset ?P"
      using a by (simp add: points_rows [OF assms(1)])
    then have "cell_sum ?sb ?eb class_index ?Q i = cell_sum ?sb ?eb class_index ?P i"
      and "cell_count ?sb ?eb class_index ?Q i = cell_count ?sb ?eb class_index ?P i" for i
      by (rule cell_sum_mset, rule cell_count_mset)
    then show "update_calls exact_ops self class_id calls =
          update_class_error exact_ops self pc class_id regressed_flow gt_flow"
      using a update_calls_closed [of calls self class_id class_index] assms(2)
      by (simp add: closed)
  qed
  have all_cells: "\<forall>ops. update_class_error ops self pc class_id regressed_flow gt_flow =
       Inr (self\<lparr> per_class_bucketed_error_sum :=
                   (\<lambda>i. if addressed ?sb ?eb class_index i
                         then fadd ops (per_class_bucketed_error_sum self i)
                                (fsum ops (cell_errors ?sb ?eb class_index ?P i))
                         else per_class_bucketed_error_sum self i),
                 per_class_bucketed_error_count :=
                   (\<lambda>i. per_class_bucketed_error_count self i + cell_count ?sb ?eb class_index ?P i) \<rparr>)"
    using cells by blast
  show ?thesis
    by (rule conjI [OF all_cells conjI [OF uniq conjI [OF one conjI [OF counts chunks]]]])
qed

text \<open>Claim C1, amended, at the example call with binary32 arithmetic: the hypotheses
  hold, the two points land in the cells \<open>(0, 0, 0, 0)\<close> and \<open>(1, 0, 1, 0)\<close>, two
  one-point calls in the opposite order give the same counts and, in exact arithmetic, the
  same state; and the call with the first point alone adds its error and 1 at its cell.\<close>

theorem update_class_error_pointwise_witness:
  "shapes_pass example_pc example_regressed_flow example_gt_flow \<and>
   class_id_to_index_map example_metric 0 = Some 0 \<and>
   sorted (speed_bucket_splits_meters_per_second example_metric) \<and>
   sorted (endpoint_error_splits_meters example_metric) \<and>
   (\<exists>self'. update_class_error binary32_ops example_metric example_pc 0 example_regressed_flow
                example_gt_flow = Inr self' \<and>
      per_class_bucketed_error_count self' (0, 0, 0, 0) = 1 \<and>
      per_class_bucketed_error_sum self' (0, 0, 0, 0) = 1/8 \<and>
      per_class_bucketed_error_count self' (1, 0, 1, 0) = 1 \<and>
      per_class_bucketed_error_sum self' (1, 0, 1, 0) = 1/8 \<and>
      per_class_bucketed_error_count self' (0, 0, 1, 0) = 0 \<and>
      per_class_bucketed_error_count self' (1, 0, 0, 0) = 0 \<and>
      total_forward_count self' = 0) \<and>
   (\<exists>several single.
      update_calls binary32_ops example_metric 0
        [(\<lparr>ncols = 3, rows = [[40, 0, 0]]\<rparr>, \<lparr>ncols = 3, rows = [[7/8, 0, 0]]\<rparr>,
          \<lparr>ncols = 3, rows = [[3/4, 0, 0]]\<rparr>),
         (\<lparr>ncols = 3, rows = [[1, 2, 0]]\<rparr>, \<lparr>ncols = 3, rows = [[1/4, 0, 0]]\<rparr>,
          \<lparr>ncols = 3, rows = [[1/8, 0, 0]]\<rparr>)] = Inr several \<and>
      update_class_error binary32_ops example_metric example_pc 0 example_regressed_flow
        example_gt_flow = Inr single \<and>
      per_class_bucketed_error_count several = per_class_bucketed_error_count single) \<and>
   update_calls exact_ops example_metric 0
     [(\<lparr>ncols = 3, rows = [[40, 0, 0]]\<rparr>, \<lparr>ncols = 3, rows = [[7/8, 0, 0]]\<rparr>,
       \<lparr>ncols = 3, rows = [[3/4, 0, 0]]\<rparr>),
      (\<lparr>ncols = 3, rows = [[1, 2, 0]]\<rparr>, \<lparr>ncols = 3, rows = [[1/4, 0, 0]]\<rparr>,
       \<lparr>ncols = 3, rows = [[1/8, 0, 0]]\<rparr>)] =
   update_class_error exact_ops example_metric example_pc 0 example_regressed_flow example_gt_flow \<and>
   neutral_zero binary32_ops \<and>
   points example_metric \<lparr>ncols = 3, rows = [[1, 2, 0]]\<rparr> \<lparr>ncols = 3, rows = [[1/4, 0, 0]]\<rparr>
     \<lparr>ncols = 3, rows = [[1/8, 0, 0]]\<rparr> = [(True, 5/4, 1/8)] \<and>
   in_cell (speed_bucket_bounds example_metric) (epe_bucket_bounds example_metric) 0 (0, 0, 0, 0)
     (True, 5/4, 1/8) \<and>
   update_class_error binary32_ops example_metric \<lparr>ncols = 3, rows = [[1, 2, 0]]\<rparr> 0
     \<lparr>ncols = 3, rows = [[1/4, 0, 0]]\<rparr> \<lparr>ncols = 3, rows = [[1/8, 0, 0]]\<rparr> =
     Inr (add_at binary32_ops example_metric (0, 0, 0, 0) (1/8) 1)"
proof -
  let ?far = "(\<lparr>ncols = 3, rows = [[40, 0, 0]]\<rparr>, \<lparr>ncols = 3, rows = [[7/8, 0, 0]]\<rparr>,
               \<lparr>ncols = 3, rows = [[3/4, 0, 0 :: real]]\<rparr>)"
  let ?close = "(\<lparr>ncols = 3, rows = [[1, 2, 0]]\<rparr>, \<lparr>ncols = 3, rows = [[1/4, 0, 0]]\<rparr>,
                 \<lparr>ncols = 3, rows = [[1/8, 0, 0 :: real]]\<rparr>)"
  have h1: "shapes_pass example_pc example_regressed_flow example_gt_flow"
    by (simp add: shapes_pass_def shape_def example_pc_def example_regressed_flow_def
          example_gt_flow_def)
  have h2: "class_id_to_index_map example_metric 0 = Some 0"
    by (simp add: example_metric_fields)
  have h3: "sorted (speed_bucket_splits_meters_per_second example_metric)"
    by (simp add: example_metric_fields)
  have h4: "sorted (endpoint_error_splits_meters example_metric)"
    by (simp add: example_metric_fields)
  note inst = update_class_error_pointwise [OF h1 h2 h3 h4]
  have cells: "\<exists>self'. update_class_error binary32_ops example_metric example_pc 0
        example_regressed_flow example_gt_flow = Inr self' \<and>
      per_class_bucketed_error_count self' (0, 0, 0, 0) = 1 \<and>
      per_class_bucketed_error_sum self' (0, 0, 0, 0) = 1/8 \<and>
      per_class_bucketed_error_count self' (1, 0, 1, 0) = 1 \<and>
      per_class_bucketed_error_sum self' (1, 0, 1, 0) = 1/8 \<and>
      per_class_bucketed_error_count self' (0, 0, 1, 0) = 0 \<and>
      per_class_bucketed_error_count self' (1, 0, 0, 0) = 0 \<and>
      total_forward_count self' = 0"
    using inst [THEN conjunct1, rule_format, of binary32_ops]
    by (simp add: example_points example_metric_fields cell_errors_def cell_count_def
          in_cell_def in_bucket_def addressed_def)
  have rows: "(\<forall>call\<in>set [?far, ?close]. call_passes call) \<and>
      mset (concat (map call_rows [?far, ?close])) =
      mset (call_rows (example_pc, example_regressed_flow, example_gt_flow))"
    by (simp add: call_passes_def call_rows_def shapes_pass_def shape_def example_pc_def
          example_regressed_flow_def example_gt_flow_def add_mset_commute)
  have counts: "\<exists>several single.
      update_calls binary32_ops example_metric 0 [?far, ?close] = Inr several \<and>
      update_class_error binary32_ops example_metric example_pc 0 example_regressed_flow
        example_gt_flow = Inr single \<and>
      per_class_bucketed_error_count several = per_class_bucketed_error_count single"
    using inst [THEN conjunct2, THEN conjunct2, THEN conjunct2, THEN conjunct1, rule_format,
      of "[?far, ?close]" binary32_ops, OF rows]
    by blast
  have calls: "update_calls exact_ops example_metric 0 [?far, ?close] =
      update_class_error exact_ops example_metric example_pc 0 example_regressed_flow
        example_gt_flow"
    by (rule inst [THEN conjunct2, THEN conjunct2, THEN conjunct2, THEN conjunct2, rule_format,
      of "[?far, ?close]", OF rows])
  have g1: "shapes_pass \<lparr>ncols = 3, rows = [[1, 2, 0]]\<rparr> \<lparr>ncols = 3, rows = [[1/4, 0, 0]]\<rparr>
     \<lparr>ncols = 3, rows = [[1/8, 0, 0]]\<rparr>"
    by (simp add: shapes_pass_def shape_def)
  have p: "points example_metric \<lparr>ncols = 3, rows = [[1, 2, 0]]\<rparr>
     \<lparr>ncols = 3, rows = [[1/4, 0, 0]]\<rparr> \<lparr>ncols = 3, rows = [[1/8, 0, 0]]\<rparr> = [(True, 5/4, 1/8)]"
    by (simp add: points_def is_close_mask_def gt_speeds_def endpoint_errors_def
        example_metric_fields norm_2_x_axis norm_inf_pair)
  have c: "in_cell (speed_bucket_bounds example_metric) (epe_bucket_bounds example_metric) 0
     (0, 0, 0, 0) (True, 5/4, 1/8)"
    by (simp add: example_metric_fields in_cell_def in_bucket_def)
  have single: "update_class_error binary32_ops example_metric \<lparr>ncols = 3, rows = [[1, 2, 0]]\<rparr> 0
     \<lparr>ncols = 3, rows = [[1/4, 0, 0]]\<rparr> \<lparr>ncols = 3, rows = [[1/8, 0, 0]]\<rparr> =
     Inr (add_at binary32_ops example_metric (0, 0, 0, 0) (1/8) 1)"
    using update_class_error_pointwise [OF g1 h2 h3 h4, THEN conjunct2, THEN conjunct2,
      THEN conjunct1, rule_format, of binary32_ops "(True, 5/4, 1/8)" "(0, 0, 0, 0)"]
      neutral_zero_binary32 p c
    by simp
  show ?thesis
    using h1 h2 h3 h4 cells counts calls neutral_zero_binary32 p c single by blast
qed

section \<open>Claim C2: buckets from splits\<close>

text \<open>
  Claim C2, as stated, fails for the empty list of splits: it has length 0 and yields no
  bucket, not \<open>0 - 1\<close> buckets.
\<close>

theorem bucket_count_empty_splits_counterexample:
  "int (length (speed_bucket_bounds (init [] [] [] None None))) \<noteq>
   int (length (speed_bucket_splits_meters_per_second (init [] [] [] None None))) - 1"
  by (simp add: speed_bucket_bounds_def bucket_bounds_def init_def)

text \<open>
  Claim C2, amended. For every sorted list of splits, \<^verbatim>\<open>speed_bucket_bounds\<close> and
  \<^verbatim>\<open>epe_bucket_bounds\<close> produce one bucket less than there are splits when the list is
  not empty, and none when it is empty; every value \<open>v\<close> with
  \<open>splits[i] \<le> v < splits[i+1]\<close> is in bucket \<open>i\<close> and in no other bucket; a value
  equal to the upper bound of bucket \<open>i\<close> is not in bucket \<open>i\<close>, and it is in bucket
  \<open>i + 1\<close> when that bucket exists and its upper bound is larger.
\<close>

theorem bucket_bounds_half_open:
  assumes "sorted splits"
  shows "(splits \<noteq> [] \<longrightarrow> int (length (bucket_bounds splits)) = int (length splits) - 1) \<and>
         (splits = [] \<longrightarrow> bucket_bounds splits = []) \<and>
         (\<forall>i v. i + 1 < length splits \<and> splits ! i \<le> v \<and> v < splits ! (i + 1) \<longrightarrow>
            i < length (bucket_bounds splits) \<and>
            in_bucket (bucket_bounds splits ! i) v \<and>
            (\<forall>j < length (bucket_bounds splits). in_bucket (bucket_bounds splits ! j) v \<longrightarrow> j = i)) \<and>
         (\<forall>i. i + 1 < length splits \<longrightarrow>
            \<not> in_bucket (bucket_bounds splits ! i) (splits ! (i + 1))) \<and>
         (\<forall>i. i + 2 < length splits \<and> splits ! (i + 1) < splits ! (i + 2) \<longrightarrow>
            in_bucket (bucket_bounds splits ! (i + 1)) (splits ! (i + 1))) \<and>
         (\<forall>self. speed_bucket_bounds self =
                    bucket_bounds (speed_bucket_splits_meters_per_second self) \<and>
                  epe_bucket_bounds self = bucket_bounds (endpoint_error_splits_meters self))"
proof -
  have len: "length (bucket_bounds splits) = length splits - 1"
    by (rule length_bucket_bounds)
  have nth: "bucket_bounds splits ! i = (splits ! i, splits ! Suc i)" if "i + 1 < length splits" for i
    using that bucket_bounds_nth(1) [of i splits] len by auto
  have a: "splits \<noteq> [] \<longrightarrow> int (length (bucket_bounds splits)) = int (length splits) - 1"
    using len by (cases splits) simp_all
  have b: "splits = [] \<longrightarrow> bucket_bounds splits = []"
    by (simp add: bucket_bounds_def)
  have c: "\<forall>i v. i + 1 < length splits \<and> splits ! i \<le> v \<and> v < splits ! (i + 1) \<longrightarrow>
            i < length (bucket_bounds splits) \<and>
            in_bucket (bucket_bounds splits ! i) v \<and>
            (\<forall>j < length (bucket_bounds splits). in_bucket (bucket_bounds splits ! j) v \<longrightarrow> j = i)"
  proof (intro allI impI)
    fix i v
    assume h: "i + 1 < length splits \<and> splits ! i \<le> v \<and> v < splits ! (i + 1)"
    then have i: "i < length (bucket_bounds splits)" using len by auto
    have inb: "in_bucket (bucket_bounds splits ! i) v"
      using h nth [of i] by (simp add: in_bucket_def)
    have "\<forall>j < length (bucket_bounds splits). in_bucket (bucket_bounds splits ! j) v \<longrightarrow> j = i"
      using bucket_unique [OF assms _ i _ inb] by blast
    with i inb show "i < length (bucket_bounds splits) \<and>
            in_bucket (bucket_bounds splits ! i) v \<and>
            (\<forall>j < length (bucket_bounds splits). in_bucket (bucket_bounds splits ! j) v \<longrightarrow> j = i)"
      by blast
  qed
  have d: "\<forall>i. i + 1 < length splits \<longrightarrow>
            \<not> in_bucket (bucket_bounds splits ! i) (splits ! (i + 1))"
    using nth by (simp add: in_bucket_def)
  have e: "\<forall>i. i + 2 < length splits \<and> splits ! (i + 1) < splits ! (i + 2) \<longrightarrow>
            in_bucket (bucket_bounds splits ! (i + 1)) (splits ! (i + 1))"
  proof (intro allI impI)
    fix i
    assume h: "i + 2 < length splits \<and> splits ! (i + 1) < splits ! (i + 2)"
    then have "bucket_bounds splits ! (i + 1) = (splits ! (i + 1), splits ! Suc (i + 1))"
      using nth [of "i + 1"] by simp
    with h show "in_bucket (bucket_bounds splits ! (i + 1)) (splits ! (i + 1))"
      by (simp add: in_bucket_def)
  qed
  have f: "\<forall>self. speed_bucket_bounds self =
                    bucket_bounds (speed_bucket_splits_meters_per_second self) \<and>
                  epe_bucket_bounds self = bucket_bounds (endpoint_error_splits_meters self)"
    by (simp add: speed_bucket_bounds_def epe_bucket_bounds_def)
  show ?thesis
    by (rule conjI [OF a conjI [OF b conjI [OF c conjI [OF d conjI [OF e f]]]]])
qed

text \<open>Claim C2, amended, at the splits 0, 5, 10.\<close>

theorem bucket_bounds_half_open_witness:
  "sorted [0, 5, 10 :: real] \<and>
   int (length (bucket_bounds [0, 5, 10])) = 2 \<and>
   in_bucket (bucket_bounds [0, 5, 10] ! 0) 1 \<and>
   \<not> in_bucket (bucket_bounds [0, 5, 10] ! 0) 5 \<and>
   in_bucket (bucket_bounds [0, 5, 10] ! 1) 5 \<and>
   \<not> in_bucket (bucket_bounds [0, 5, 10] ! 1) 10"
proof -
  have h: "sorted [0, 5, 10 :: real]" by simp
  note inst = bucket_bounds_half_open [OF h]
  have 1: "int (length (bucket_bounds [0, 5, 10])) = 2"
    using inst [THEN conjunct1] by simp
  have 2: "in_bucket (bucket_bounds [0, 5, 10] ! 0) 1"
    using inst [THEN conjunct2, THEN conjunct2, THEN conjunct1, rule_format, of 0 1] by simp
  have 3: "\<not> in_bucket (bucket_bounds [0, 5, 10] ! 0) 5"
    using inst [THEN conjunct2, THEN conjunct2, THEN conjunct2, THEN conjunct1, rule_format, of 0]
    by simp
  have 4: "in_bucket (bucket_bounds [0, 5, 10] ! 1) 5"
    using inst [THEN conjunct2, THEN conjunct2, THEN conjunct2, THEN conjunct2, THEN conjunct1,
        rule_format, of 0]
    by simp
  have 5: "\<not> in_bucket (bucket_bounds [0, 5, 10] ! 1) 10"
    using inst [THEN conjunct2, THEN conjunct2, THEN conjunct2, THEN conjunct1, rule_format, of 1]
    by simp
  show ?thesis using h 1 2 3 4 5 by blast
qed

section \<open>Claim C3: no samples processed\<close>

text \<open>
  Claim C3, as stated, fails: with a gathered forward count of 0 the method raises
  nothing. On rank 0 it builds the report, whose average forward time is the quotient of
  two tensors, here not-a-number.
\<close>

theorem validation_epoch_end_zero_count_counterexample:
  "total_forward_count example_metric = 0 \<and>
   gathered_forward_count
     (validation_epoch_end binary32_ops (all_gather [tensors_of example_metric] 0) 0 example_metric) = 0 \<and>
   map_option average_forward_time
     (validation_result_dict
        (validation_epoch_end binary32_ops (all_gather [tensors_of example_metric] 0) 0 example_metric)) =
     Some NaN"
  using gather_world [of 0 "[example_metric]" binary32_ops]
  by (simp add: validation_epoch_end_fields world_totals_def torch_div_def example_metric_fields)

text \<open>
  Claim C3, amended. When \<^verbatim>\<open>validation_epoch_end\<close> finds a gathered total forward
  count of 0, it does not fail: it resets the metric; on a rank other than 0 it builds no
  report; on rank 0 it builds the report from the gathered sums and counts, with an
  average forward time that is not-a-number when the gathered total forward time is 0 and
  an infinity of its sign otherwise.
\<close>

theorem validation_epoch_end_zero_forward_count:
  assumes "gathered_forward_count (validation_epoch_end ops self_all_gather global_rank self) = 0"
  shows "metric_after (validation_epoch_end ops self_all_gather global_rank self) = reset self \<and>
         (global_rank \<noteq> 0 \<longrightarrow>
            validation_result_dict (validation_epoch_end ops self_all_gather global_rank self) = None) \<and>
         (global_rank = 0 \<longrightarrow>
            validation_result_dict (validation_epoch_end ops self_all_gather global_rank self) =
              Some \<lparr> result_error_sum =
                       gathered_error_sum (validation_epoch_end ops self_all_gather global_rank self),
                     result_error_count =
                       gathered_error_count (validation_epoch_end ops self_all_gather global_rank self),
                     average_forward_time =
                       (if gathered_forward_time
                             (validation_epoch_end ops self_all_gather global_rank self) = 0
                        then NaN
                        else if 0 < gathered_forward_time
                                      (validation_epoch_end ops self_all_gather global_rank self)
                        then PosInf else NegInf) \<rparr>)"
  using assms
  by (cases "global_rank = 0") (simp_all add: validation_epoch_end_fields torch_div_def)

text \<open>Claim C3, amended, for one process with nothing recorded, and for one process with
  3 seconds and no sample recorded.\<close>

theorem validation_epoch_end_zero_forward_count_witness:
  "gathered_forward_count
     (validation_epoch_end binary32_ops (all_gather [tensors_of example_metric] 0) 0 example_metric) = 0 \<and>
   gathered_forward_time
     (validation_epoch_end binary32_ops (all_gather [tensors_of example_metric] 0) 0 example_metric) = 0 \<and>
   map_option average_forward_time
     (validation_result_dict
        (validation_epoch_end binary32_ops (all_gather [tensors_of example_metric] 0) 0 example_metric)) =
     Some NaN \<and>
   metric_after (validation_epoch_end binary32_ops (all_gather [tensors_of example_metric] 0) 0 example_metric) =
     reset example_metric \<and>
   gathered_forward_count
     (validation_epoch_end binary32_ops (all_gather [tensors_of (update_runtime binary32_ops example_metric 3 0)] 0) 0
        (update_runtime binary32_ops example_metric 3 0)) = 0 \<and>
   map_option average_forward_time
     (validation_result_dict
        (validation_epoch_end binary32_ops (all_gather [tensors_of (update_runtime binary32_ops example_metric 3 0)] 0) 0
           (update_runtime binary32_ops example_metric 3 0))) = Some PosInf"
proof -
  let ?E = "validation_epoch_end binary32_ops (all_gather [tensors_of example_metric] 0) 0 example_metric"
  let ?m = "update_runtime binary32_ops example_metric 3 0"
  let ?F = "validation_epoch_end binary32_ops (all_gather [tensors_of ?m] 0) 0 ?m"
  have h: "gathered_forward_count ?E = 0"
    using gather_world [of 0 "[example_metric]" binary32_ops]
    by (simp add: validation_epoch_end_fields world_totals_def example_metric_fields)
  have t: "gathered_forward_time ?E = 0"
    using gather_world [of 0 "[example_metric]" binary32_ops]
    by (simp add: validation_epoch_end_fields world_totals_def example_metric_fields)
  have h': "gathered_forward_count ?F = 0"
    using gather_world [of 0 "[?m]" binary32_ops]
    by (simp add: validation_epoch_end_fields world_totals_def example_metric_fields
          update_runtime_def)
  have t': "gathered_forward_time ?F = 3"
    using gather_world [of 0 "[?m]" binary32_ops]
    by (simp add: validation_epoch_end_fields world_totals_def example_metric_fields
          update_runtime_def)
  have a: "map_option average_forward_time (validation_result_dict ?E) = Some NaN"
    using validation_epoch_end_zero_forward_count [OF h] t by simp
  have b: "metric_after ?E = reset example_metric"
    using validation_epoch_end_zero_forward_count [OF h] by simp
  have c: "map_option average_forward_time (validation_result_dict ?F) = Some PosInf"
    using validation_epoch_end_zero_forward_count [OF h'] t' by simp
  show ?thesis using h t a b h' c by blast
qed

section \<open>Claim C4: the shape check\<close>

text \<open>
  Claim C4 fails on the code. The third assertion tests \<^verbatim>\<open>pc.shape[1] == 3\<close> while its
  message prints \<^verbatim>\<open>regressed_flow.shape[1]\<close> against 3: the number of columns of the
  two flow arrays is compared with each other only, never with 3. A call with one point of
  three coordinates and two flow arrays of shape \<open>(1, 2)\<close> passes the assertions and
  changes the accumulators (here with binary32 arithmetic; all numbers are binary32
  numbers).
\<close>

theorem update_class_error_flow_width_unchecked:
  "shape \<lparr>ncols = 3, rows = [[0, 0, 0]]\<rparr> = (1, 3) \<and>
   shape \<lparr>ncols = 2, rows = [[1/2, 0]]\<rparr> = (1, 2) \<and>
   shape \<lparr>ncols = 2, rows = [[0, 0]]\<rparr> = (1, 2) \<and>
   update_class_error binary32_ops example_metric \<lparr>ncols = 3, rows = [[0, 0, 0]]\<rparr> 0
       \<lparr>ncols = 2, rows = [[1/2, 0]]\<rparr> \<lparr>ncols = 2, rows = [[0, 0]]\<rparr> =
     Inr (add_at binary32_ops example_metric (0, 0, 0, 0) (1/2) 1)"
proof -
  let ?pc = "\<lparr>ncols = 3, rows = [[0, 0, 0]]\<rparr>"
  let ?rf = "\<lparr>ncols = 2, rows = [[1/2, 0]]\<rparr>" and ?gt = "\<lparr>ncols = 2, rows = [[0, 0]]\<rparr>"
  have sp: "shapes_pass ?pc ?rf ?gt" by (simp add: shapes_pass_def shape_def)
  have P: "points example_metric ?pc ?rf ?gt = [(True, 0, 1/2)]"
    by (simp add: points_def is_close_mask_def gt_speeds_def endpoint_errors_def
          example_metric_fields norm_2_x_axis2 norm_inf_pair)
  have c: "in_cell (speed_bucket_bounds example_metric) (epe_bucket_bounds example_metric) 0 i
             (True, 0, 1/2) \<longleftrightarrow> i = (0, 0, 0, 0)" for i
    by (cases i) (auto simp: in_cell_def in_bucket_def example_metric_fields less_Suc_eq)
  have "update_class_error binary32_ops example_metric ?pc 0 ?rf ?gt =
          Inr (add_at binary32_ops example_metric (0, 0, 0, 0) (1/2) 1)"
    using update_class_error_single [OF sp example_metric_fields(1) neutral_zero_binary32 P c]
    by simp
  then show ?thesis by (simp add: shape_def)
qed

section \<open>Claim C5: the order of the processes\<close>

text \<open>
  Claim C5, as stated, fails for the float tensors: binary32 addition is not associative.
  Take three processes that have each seen one point, with errors \<open>1/2\<close>, \<open>2^-25\<close>
  and \<open>2^-25\<close> in the same cell. Merging the first two and then the third gives the
  error sum \<open>1/2\<close>, since \<open>1/2 + 2^-25\<close> is rounded to \<open>1/2\<close> twice; merging the
  first with the merge of the other two gives \<open>1/2 + 2^-24\<close>. Only sums of two numbers
  occur.
\<close>

theorem merge_binary32_not_associative_counterexample:
  "per_class_bucketed_error_sum example_half (0, 0, 0, 0) = 1/2 \<and>
   per_class_bucketed_error_sum example_tiny (0, 0, 0, 0) = 1/33554432 \<and>
   per_class_bucketed_error_sum
     (merge binary32_ops (merge binary32_ops example_half example_tiny) example_tiny)
     (0, 0, 0, 0) = 1/2 \<and>
   per_class_bucketed_error_sum
     (merge binary32_ops example_half (merge binary32_ops example_tiny example_tiny))
     (0, 0, 0, 0) = 8388609/16777216 \<and>
   tensors_of (merge binary32_ops (merge binary32_ops example_half example_tiny) example_tiny) \<noteq>
   tensors_of (merge binary32_ops example_half (merge binary32_ops example_tiny example_tiny))"
proof -
  have h: "per_class_bucketed_error_sum example_half (0, 0, 0, 0) = 1/2"
    and t: "per_class_bucketed_error_sum example_tiny (0, 0, 0, 0) = 1/33554432"
    by (simp_all add: example_half_def example_tiny_def add_at_def example_metric_fields)
  have l: "per_class_bucketed_error_sum
     (merge binary32_ops (merge binary32_ops example_half example_tiny) example_tiny)
     (0, 0, 0, 0) = 1/2"
    by (simp add: merge_fields h t binary32_half_plus_tiny)
  have r: "per_class_bucketed_error_sum
     (merge binary32_ops example_half (merge binary32_ops example_tiny example_tiny))
     (0, 0, 0, 0) = 8388609/16777216"
    by (simp add: merge_fields h t binary32_tiny_plus_tiny binary32_half_plus_two_tiny)
  have "per_class_bucketed_error_sum
     (merge binary32_ops (merge binary32_ops example_half example_tiny) example_tiny) \<noteq>
     per_class_bucketed_error_sum
     (merge binary32_ops example_half (merge binary32_ops example_tiny example_tiny))"
  proof
    assume "per_class_bucketed_error_sum
       (merge binary32_ops (merge binary32_ops example_half example_tiny) example_tiny) =
       per_class_bucketed_error_sum
       (merge binary32_ops example_half (merge binary32_ops example_tiny example_tiny))"
    then have "per_class_bucketed_error_sum
       (merge binary32_ops (merge binary32_ops example_half example_tiny) example_tiny)
       (0, 0, 0, 0) =
       per_class_bucketed_error_sum
       (merge binary32_ops example_half (merge binary32_ops example_tiny example_tiny))
       (0, 0, 0, 0)"
      by (rule fun_cong)
    then show False unfolding l r by simp
  qed
  then have ne: "tensors_of
       (merge binary32_ops (merge binary32_ops example_half example_tiny) example_tiny) \<noteq>
     tensors_of (merge binary32_ops example_half (merge binary32_ops example_tiny example_tiny))"
    by (simp add: tensors_of_def)
  show ?thesis using h t l r ne by blast
qed

text \<open>
  Claim C5, amended. What \<^verbatim>\<open>gather\<close> returns is the same on every process of a run,
  with any arithmetic. The two count tensors it returns do not depend on the order of the
  processes in the stack, and the merge of two accumulators is commutative and associative
  in them. For the two float tensors the same holds in exact arithmetic, where merging
  three accumulators pairwise, in either bracketing, gives the totals of the gather over
  the three. In binary32 arithmetic the merge of two accumulators is commutative.
\<close>

theorem gather_sum_commutative_associative:
  "(\<forall>ops world rank rank'. rank < length world \<and> rank' < length world \<longrightarrow>
      gather ops (world ! rank) (all_gather (map tensors_of world) rank) =
      gather ops (world ! rank') (all_gather (map tensors_of world) rank')) \<and>
   (\<forall>ops world world' rank rank'.
      mset world = mset world' \<and> rank < length world \<and> rank' < length world' \<longrightarrow>
      fst (snd (gather ops (world ! rank) (all_gather (map tensors_of world) rank))) =
      fst (snd (gather ops (world' ! rank') (all_gather (map tensors_of world') rank'))) \<and>
      snd (snd (snd (gather ops (world ! rank) (all_gather (map tensors_of world) rank)))) =
      snd (snd (snd (gather ops (world' ! rank') (all_gather (map tensors_of world') rank'))))) \<and>
   (\<forall>ops. per_class_bucketed_error_count (merge ops a b) =
           per_class_bucketed_error_count (merge ops b a) \<and>
          total_forward_count (merge ops a b) = total_forward_count (merge ops b a) \<and>
          per_class_bucketed_error_count (merge ops (merge ops a b) c) =
           per_class_bucketed_error_count (merge ops a (merge ops b c)) \<and>
          total_forward_count (merge ops (merge ops a b) c) =
           total_forward_count (merge ops a (merge ops b c)) \<and>
          tensors_of (merge ops a b) =
           gather ops a (all_gather [tensors_of a, tensors_of b] 0)) \<and>
   (\<forall>world world' rank rank'.
      mset world = mset world' \<and> rank < length world \<and> rank' < length world' \<longrightarrow>
      gather exact_ops (world ! rank) (all_gather (map tensors_of world) rank) =
      gather exact_ops (world' ! rank') (all_gather (map tensors_of world') rank')) \<and>
   tensors_of (merge exact_ops a b) = tensors_of (merge exact_ops b a) \<and>
   tensors_of (merge exact_ops (merge exact_ops a b) c) =
     tensors_of (merge exact_ops a (merge exact_ops b c)) \<and>
   tensors_of (merge exact_ops (merge exact_ops a b) c) =
     gather exact_ops a (all_gather [tensors_of a, tensors_of b, tensors_of c] 0) \<and>
   tensors_of (merge binary32_ops a b) = tensors_of (merge binary32_ops b a)"
proof -
  have same: "\<forall>ops world rank rank'. rank < length world \<and> rank' < length world \<longrightarrow>
      gather ops (world ! rank) (all_gather (map tensors_of world) rank) =
      gather ops (world ! rank') (all_gather (map tensors_of world) rank')"
    by (simp add: gather_world)
  have counts: "\<forall>ops world world' rank rank'.
      mset world = mset world' \<and> rank < length world \<and> rank' < length world' \<longrightarrow>
      fst (snd (gather ops (world ! rank) (all_gather (map tensors_of world) rank))) =
      fst (snd (gather ops (world' ! rank') (all_gather (map tensors_of world') rank'))) \<and>
      snd (snd (snd (gather ops (world ! rank) (all_gather (map tensors_of world) rank)))) =
      snd (snd (snd (gather ops (world' ! rank') (all_gather (map tensors_of world') rank'))))"
  proof (intro allI impI)
    fix ops and world world' :: "metric list" and rank rank' :: nat
    assume h: "mset world = mset world' \<and> rank < length world \<and> rank' < length world'"
    then have m: "mset world = mset world'" by simp
    show "fst (snd (gather ops (world ! rank) (all_gather (map tensors_of world) rank))) =
      fst (snd (gather ops (world' ! rank') (all_gather (map tensors_of world') rank'))) \<and>
      snd (snd (snd (gather ops (world ! rank) (all_gather (map tensors_of world) rank)))) =
      snd (snd (snd (gather ops (world' ! rank') (all_gather (map tensors_of world') rank'))))"
      using h world_counts_mset [OF m, of ops] by (simp only: gather_world)
  qed
  have ints: "\<forall>ops. per_class_bucketed_error_count (merge ops a b) =
           per_class_bucketed_error_count (merge ops b a) \<and>
          total_forward_count (merge ops a b) = total_forward_count (merge ops b a) \<and>
          per_class_bucketed_error_count (merge ops (merge ops a b) c) =
           per_class_bucketed_error_count (merge ops a (merge ops b c)) \<and>
          total_forward_count (merge ops (merge ops a b) c) =
           total_forward_count (merge ops a (merge ops b c)) \<and>
          tensors_of (merge ops a b) =
           gather ops a (all_gather [tensors_of a, tensors_of b] 0)"
    unfolding gather_two
    by (simp add: merge_fields ac_simps tensors_of_def world_totals_def
          sum_dim0_def fsum_dim0_def)
  have perm: "\<forall>world world' rank rank'.
      mset world = mset world' \<and> rank < length world \<and> rank' < length world' \<longrightarrow>
      gather exact_ops (world ! rank) (all_gather (map tensors_of world) rank) =
      gather exact_ops (world' ! rank') (all_gather (map tensors_of world') rank')"
  proof (intro allI impI)
    fix world world' :: "metric list" and rank rank' :: nat
    assume h: "mset world = mset world' \<and> rank < length world \<and> rank' < length world'"
    then have "mset world = mset world'" by simp
    then have "world_totals exact_ops world = world_totals exact_ops world'"
      by (rule world_totals_mset)
    then show "gather exact_ops (world ! rank) (all_gather (map tensors_of world) rank) =
      gather exact_ops (world' ! rank') (all_gather (map tensors_of world') rank')"
      using h by (simp only: gather_world)
  qed
  have comm: "tensors_of (merge exact_ops a b) = tensors_of (merge exact_ops b a)"
    by (simp add: tensors_of_def merge_fields add.commute)
  have assoc: "tensors_of (merge exact_ops (merge exact_ops a b) c) =
      tensors_of (merge exact_ops a (merge exact_ops b c))"
    by (simp add: tensors_of_def merge_fields add.assoc)
  have three: "tensors_of (merge exact_ops (merge exact_ops a b) c) =
     gather exact_ops a (all_gather [tensors_of a, tensors_of b, tensors_of c] 0)"
    unfolding gather_three
    by (simp add: tensors_of_def merge_fields world_totals_def sum_dim0_def fsum_dim0_def add.assoc)
  have comm32: "tensors_of (merge binary32_ops a b) = tensors_of (merge binary32_ops b a)"
    by (simp add: tensors_of_def merge_fields add.commute binary32_add_commute [of _ "total_forward_time b"]
          binary32_add_commute [of _ "per_class_bucketed_error_sum b _"])
  show ?thesis
    by (rule conjI [OF same conjI [OF counts conjI [OF ints conjI [OF perm
          conjI [OF comm conjI [OF assoc conjI [OF three comm32]]]]]]])
qed

text \<open>Claim C5, amended, for the two example processes in both orders, with binary32
  arithmetic for the counts and exact arithmetic for the sums.\<close>

theorem gather_sum_commutative_associative_witness:
  "mset example_world = mset (rev example_world) \<and>
   (0::nat) < length example_world \<and> (1::nat) < length (rev example_world) \<and>
   gather binary32_ops (example_world ! 0) (all_gather (map tensors_of example_world) 0) =
   gather binary32_ops (example_world ! 1) (all_gather (map tensors_of example_world) 1) \<and>
   fst (snd (gather binary32_ops (example_world ! 0) (all_gather (map tensors_of example_world) 0))) =
   fst (snd (gather binary32_ops (rev example_world ! 1)
               (all_gather (map tensors_of (rev example_world)) 1))) \<and>
   gather exact_ops (example_world ! 0) (all_gather (map tensors_of example_world) 0) =
   gather exact_ops (rev example_world ! 1) (all_gather (map tensors_of (rev example_world)) 1) \<and>
   fst (snd (gather binary32_ops (example_world ! 0) (all_gather (map tensors_of example_world) 0)))
     (0, 0, 0, 0) = 10"
proof -
  have h: "mset example_world = mset (rev example_world)" by simp
  have l: "(0::nat) < length example_world" "(1::nat) < length (rev example_world)"
    "(1::nat) < length example_world"
    by (simp_all add: example_world_def)
  note inst = gather_sum_commutative_associative [of example_metric example_metric example_metric]
  have s: "gather binary32_ops (example_world ! 0) (all_gather (map tensors_of example_world) 0) =
      gather binary32_ops (example_world ! 1) (all_gather (map tensors_of example_world) 1)"
    using inst [THEN conjunct1, rule_format, of 0 example_world 1 binary32_ops] l by blast
  have c: "fst (snd (gather binary32_ops (example_world ! 0)
                       (all_gather (map tensors_of example_world) 0))) =
      fst (snd (gather binary32_ops (rev example_world ! 1)
                  (all_gather (map tensors_of (rev example_world)) 1)))"
    using inst [THEN conjunct2, THEN conjunct1, rule_format,
        of example_world "rev example_world" 0 1 binary32_ops] h l
    by blast
  have g: "gather exact_ops (example_world ! 0) (all_gather (map tensors_of example_world) 0) =
           gather exact_ops (rev example_world ! 1)
             (all_gather (map tensors_of (rev example_world)) 1)"
    using inst [THEN conjunct2, THEN conjunct2, THEN conjunct2, THEN conjunct1, rule_format,
        of example_world "rev example_world" 0 1] h l
    by blast
  have v: "fst (snd (gather binary32_ops (example_world ! 0)
                       (all_gather (map tensors_of example_world) 0))) (0, 0, 0, 0) = 10"
    by (simp add: gather_def all_gather_def tensors_of_def example_world_def sum_dim0_def)
  show ?thesis using h l(1,2) s c g v by blast
qed

section \<open>Claim C6: points outside all buckets\<close>

text \<open>
  Claim C6. Take any call of \<^verbatim>\<open>update_class_error\<close> and one of its points (the same row
  number in the three arrays) whose ground-truth speed lies in no speed bucket or whose
  endpoint error lies in no error bucket. The call returns what it returns when that row is
  removed from the three arrays: the point contributes nothing to any cell. A value below
  every split, or at or above every split, lies in no bucket.
\<close>

theorem update_class_error_drops_out_of_range_point:
  assumes "length pc_before = length rf_before" and "length rf_before = length gt_before"
    and "(\<forall>b\<in>set (speed_bucket_bounds self).
            \<not> in_bucket b (norm_2 g * per_frame_to_per_second_scale_factor self)) \<or>
         (\<forall>b\<in>set (epe_bucket_bounds self). \<not> in_bucket b (norm_2 (map2 (-) r g)))"
  shows "update_class_error ops self
           \<lparr>ncols = n, rows = pc_before @ p # pc_after\<rparr> class_id
           \<lparr>ncols = n', rows = rf_before @ r # rf_after\<rparr>
           \<lparr>ncols = n'', rows = gt_before @ g # gt_after\<rparr> =
         update_class_error ops self
           \<lparr>ncols = n, rows = pc_before @ pc_after\<rparr> class_id
           \<lparr>ncols = n', rows = rf_before @ rf_after\<rparr>
           \<lparr>ncols = n'', rows = gt_before @ gt_after\<rparr> \<and>
         (\<forall>splits v. (\<forall>x\<in>set splits. v < x) \<or> (\<forall>x\<in>set splits. x \<le> v) \<longrightarrow>
            (\<forall>b\<in>set (bucket_bounds splits). \<not> in_bucket b v))"
  using update_class_error_without_point [OF assms] outside_all_buckets by blast

text \<open>Claim C6, at the example call with a point of speed 20 inserted as second row.\<close>

theorem update_class_error_drops_out_of_range_point_witness:
  "length [[1, 2, 0::real]] = length [[1/4, 0, 0::real]] \<and>
   length [[1/4, 0, 0::real]] = length [[1/8, 0, 0::real]] \<and>
   speed_bucket_bounds example_metric = [(0, 5), (5, 10)] \<and>
   norm_2 [2, 0, 0] * per_frame_to_per_second_scale_factor example_metric = 20 \<and>
   \<not> in_bucket (0, 5) 20 \<and> \<not> in_bucket (5, 10) 20 \<and>
   update_class_error binary32_ops example_metric
      \<lparr>ncols = 3, rows = [[1, 2, 0], [3, 3, 0], [40, 0, 0]]\<rparr> 0
      \<lparr>ncols = 3, rows = [[1/4, 0, 0], [2, 0, 0], [7/8, 0, 0]]\<rparr>
      \<lparr>ncols = 3, rows = [[1/8, 0, 0], [2, 0, 0], [3/4, 0, 0]]\<rparr> =
   update_class_error binary32_ops example_metric example_pc 0 example_regressed_flow example_gt_flow \<and>
   bucket_bounds [0, 5, 10] = [(0, 5), (5, 10)] \<and>
   \<not> in_bucket (0, 5) 10 \<and> \<not> in_bucket (5, 10) 10"
proof -
  have h1: "length [[1, 2, 0::real]] = length [[1/4, 0, 0::real]]" by simp
  have h2: "length [[1/4, 0, 0::real]] = length [[1/8, 0, 0::real]]" by simp
  have sb: "speed_bucket_bounds example_metric = [(0, 5), (5, 10)]"
    by (simp add: example_metric_fields)
  have sp: "norm_2 [2, 0, 0] * per_frame_to_per_second_scale_factor example_metric = 20"
    by (simp add: example_metric_fields norm_2_x_axis)
  have nb: "\<not> in_bucket (0, 5) 20" "\<not> in_bucket (5, 10) 20"
    by (simp_all add: in_bucket_def)
  have out: "\<forall>b\<in>set (speed_bucket_bounds example_metric).
       \<not> in_bucket b (norm_2 [2, 0, 0] * per_frame_to_per_second_scale_factor example_metric)"
    unfolding sb sp using nb by simp
  then have h3: "(\<forall>b\<in>set (speed_bucket_bounds example_metric).
       \<not> in_bucket b (norm_2 [2, 0, 0] * per_frame_to_per_second_scale_factor example_metric)) \<or>
     (\<forall>b\<in>set (epe_bucket_bounds example_metric). \<not> in_bucket b (norm_2 (map2 (-) [2, 0, 0] [2, 0, 0])))"
    by (rule disjI1)
  note inst = update_class_error_drops_out_of_range_point [OF h1 h2 h3, of binary32_ops 3 "[3, 3, 0]"
        "[[40, 0, 0]]" 0 3 "[[7/8, 0, 0]]" 3 "[[3/4, 0, 0]]"]
  have eq: "update_class_error binary32_ops example_metric
      \<lparr>ncols = 3, rows = [[1, 2, 0], [3, 3, 0], [40, 0, 0]]\<rparr> 0
      \<lparr>ncols = 3, rows = [[1/4, 0, 0], [2, 0, 0], [7/8, 0, 0]]\<rparr>
      \<lparr>ncols = 3, rows = [[1/8, 0, 0], [2, 0, 0], [3/4, 0, 0]]\<rparr> =
   update_class_error binary32_ops example_metric example_pc 0 example_regressed_flow example_gt_flow"
    using inst [THEN conjunct1]
    by (simp add: example_pc_def example_regressed_flow_def example_gt_flow_def)
  have bb: "bucket_bounds [0, 5, 10] = [(0, 5), (5, 10)]"
    by (simp add: bucket_bounds_def)
  have top: "\<not> in_bucket (0, 5) 10" "\<not> in_bucket (5, 10) 10"
    using inst [THEN conjunct2, rule_format, of "[0, 5, 10]" 10] by (simp_all add: bb)
  show ?thesis using h1 h2 sb sp nb eq bb top by blast
qed

section \<open>Claim C7: gather first, reset afterwards\<close>

text \<open>
  Claim C7. Let the processes of a run start the end of the epoch with the metric objects
  \<open>world\<close>, and let them execute their statements in any interleaving. In every state
  the run can reach, a process that has left the gather holds as gathered tensors the
  sums, over all processes and with the arithmetic of the run, of the tensors the metric
  objects held at the end of the epoch, before any reset; a process that has reset holds zero error sums, zero error counts, a
  zero total forward time and a zero total forward count; a process that has not reset
  still holds its metric object unchanged; and what a process hands to the collective is
  its tensors before its reset. These are the values \<^verbatim>\<open>validation_epoch_end\<close>
  computes when the collective delivers the tensors of \<open>world\<close>.
\<close>

theorem epoch_end_gather_before_reset:
  assumes "run ops (start world) schedule = Some ps" and "rank < length world"
  shows "length ps = length world \<and>
         (location (ps ! rank) = Before_reset \<or> location (ps ! rank) = After_reset \<longrightarrow>
            gathered (ps ! rank) =
              Some (fsum_dim0 ops (map per_class_bucketed_error_sum world),
                    sum_dim0 (map per_class_bucketed_error_count world),
                    fsum ops (map total_forward_time world),
                    sum_list (map total_forward_count world))) \<and>
         (location (ps ! rank) = After_reset \<longrightarrow>
            metric_of (ps ! rank) = reset (world ! rank) \<and>
            per_class_bucketed_error_sum (metric_of (ps ! rank)) = (\<lambda>_. 0) \<and>
            per_class_bucketed_error_count (metric_of (ps ! rank)) = (\<lambda>_. 0) \<and>
            total_forward_time (metric_of (ps ! rank)) = 0 \<and>
            total_forward_count (metric_of (ps ! rank)) = 0) \<and>
         (location (ps ! rank) \<noteq> After_reset \<longrightarrow> metric_of (ps ! rank) = world ! rank) \<and>
         (location (ps ! rank) \<noteq> Before_gather \<longrightarrow>
            contribution (ps ! rank) = Some (tensors_of (world ! rank))) \<and>
         metric_after (validation_epoch_end ops (all_gather (map tensors_of world) rank) rank
                         (world ! rank)) = reset (world ! rank) \<and>
         (gathered_error_sum (validation_epoch_end ops (all_gather (map tensors_of world) rank) rank
                                (world ! rank)),
          gathered_error_count (validation_epoch_end ops (all_gather (map tensors_of world) rank) rank
                                  (world ! rank)),
          gathered_forward_time (validation_epoch_end ops (all_gather (map tensors_of world) rank) rank
                                   (world ! rank)),
          gathered_forward_count (validation_epoch_end ops (all_gather (map tensors_of world) rank) rank
                                    (world ! rank))) =
           (fsum_dim0 ops (map per_class_bucketed_error_sum world),
            sum_dim0 (map per_class_bucketed_error_count world),
            fsum ops (map total_forward_time world),
            sum_list (map total_forward_count world))"
proof -
  have c: "consistent ops world ps"
    by (rule consistent_run [OF consistent_start assms(1)])
  then have len: "length ps = length world" by (simp add: consistent_def)
  have ok: "process_ok ops world rank (ps ! rank)"
    using consistent_nth(1) [OF c] assms(2) len by simp
  have g: "gather ops (world ! rank) (all_gather (map tensors_of world) rank) =
           (fsum_dim0 ops (map per_class_bucketed_error_sum world),
            sum_dim0 (map per_class_bucketed_error_count world),
            fsum ops (map total_forward_time world),
            sum_list (map total_forward_count world))"
    using gather_world [OF assms(2)] by (simp add: world_totals_def)
  show ?thesis
    using ok len
    by (simp add: process_ok_def world_totals_def validation_epoch_end_fields g reset_def)
qed

text \<open>Claim C7, for two processes that each hold a count of 5 at one cell, in a schedule
  where the process of rank 0 resets before the process of rank 1 has left the gather: both
  gather a count of 10, both hold a count of 0 in the end. A process cannot leave the
  collective before the other has entered it.\<close>

theorem epoch_end_gather_before_reset_witness:
  "per_class_bucketed_error_count (example_world ! 0) (0, 0, 0, 0) = 5 \<and>
   per_class_bucketed_error_count (example_world ! 1) (0, 0, 0, 0) = 5 \<and>
   (\<exists>ps. run binary32_ops (start example_world) [Enter 0, Enter 1, Leave 0, Reset 0, Leave 1, Reset 1] = Some ps \<and>
      map location ps = [After_reset, After_reset] \<and>
      map_option (\<lambda>t. fst (snd t) (0, 0, 0, 0)) (gathered (ps ! 0)) = Some 10 \<and>
      map_option (\<lambda>t. fst (snd t) (0, 0, 0, 0)) (gathered (ps ! 1)) = Some 10 \<and>
      map_option (\<lambda>t. fst t (0, 0, 0, 0)) (gathered (ps ! 1)) = Some 2 \<and>
      per_class_bucketed_error_count (metric_of (ps ! 0)) (0, 0, 0, 0) = 0 \<and>
      per_class_bucketed_error_count (metric_of (ps ! 1)) (0, 0, 0, 0) = 0) \<and>
   run binary32_ops (start example_world) [Enter 0, Leave 0] = None"
proof -
  let ?sched = "[Enter 0, Enter 1, Leave 0, Reset 0, Leave 1, Reset 1]"
  have counts: "per_class_bucketed_error_count (example_world ! 0) (0, 0, 0, 0) = 5"
    "per_class_bucketed_error_count (example_world ! 1) (0, 0, 0, 0) = 5"
    "per_class_bucketed_error_sum (example_world ! 0) (0, 0, 0, 0) = 1/2"
    "per_class_bucketed_error_sum (example_world ! 1) (0, 0, 0, 0) = 3/2"
    by (simp_all add: example_world_def)
  have len: "length example_world = 2" by (simp add: example_world_def)
  have ex: "\<exists>ps. run binary32_ops (start example_world) ?sched = Some ps \<and>
              map location ps = [After_reset, After_reset]"
    by (simp add: start_def example_world_def)
  then obtain ps where r: "run binary32_ops (start example_world) ?sched = Some ps"
    and l: "map location ps = [After_reset, After_reset]" by auto
  have l0: "location (ps ! 0) = After_reset" and l1: "location (ps ! 1) = After_reset"
    using l by (metis nth_Cons_0 nth_map length_map length_Cons list.size(3) zero_less_Suc,
                metis One_nat_def nth_Cons_0 nth_Cons_Suc nth_map length_map length_Cons
                  list.size(3) lessI)
  have r0: "(0::nat) < length example_world" and r1: "(1::nat) < length example_world"
    using len by simp_all
  note i0 = epoch_end_gather_before_reset [OF r r0]
  note i1 = epoch_end_gather_before_reset [OF r r1]
  have g0: "map_option (\<lambda>t. fst (snd t) (0, 0, 0, 0)) (gathered (ps ! 0)) = Some 10"
    using i0 [THEN conjunct2, THEN conjunct1] l0 counts
    by (simp add: sum_dim0_def example_world_def)
  have g1: "map_option (\<lambda>t. fst (snd t) (0, 0, 0, 0)) (gathered (ps ! 1)) = Some 10"
    using i1 [THEN conjunct2, THEN conjunct1] l1 counts
    by (simp add: sum_dim0_def example_world_def)
  have s1: "map_option (\<lambda>t. fst t (0, 0, 0, 0)) (gathered (ps ! 1)) = Some 2"
    using i1 [THEN conjunct2, THEN conjunct1] l1 counts
    by (simp add: fsum_dim0_def example_world_def binary32_half_plus_three_halves)
  have z0: "per_class_bucketed_error_count (metric_of (ps ! 0)) (0, 0, 0, 0) = 0"
    using i0 [THEN conjunct2, THEN conjunct2, THEN conjunct1] l0 by (simp add: reset_def)
  have z1: "per_class_bucketed_error_count (metric_of (ps ! 1)) (0, 0, 0, 0) = 0"
    using i1 [THEN conjunct2, THEN conjunct2, THEN conjunct1] l1 by (simp add: reset_def)
  have blocked: "run binary32_ops (start example_world) [Enter 0, Leave 0] = None"
    by (simp add: start_def example_world_def)
  show ?thesis using counts(1,2) r l g0 g1 s1 z0 z1 blocked by auto
qed

section \<open>Claim C8: the category lookup\<close>

text \<open>
  Claim C8, as stated, fails: the assertions come before the lookup, so a call whose arrays
  fail the shape check fails with \<open>ShapeMismatch\<close> even when its category id is absent
  from the table.
\<close>

theorem update_class_error_unknown_category_counterexample:
  "class_id_to_index_map example_metric 7 = None \<and>
   update_class_error binary32_ops example_metric \<lparr>ncols = 2, rows = [[0, 0]]\<rparr> 7
       \<lparr>ncols = 3, rows = [[0, 0, 0]]\<rparr> \<lparr>ncols = 3, rows = [[0, 0, 0]]\<rparr> =
     Inl (ShapeMismatch, example_metric) \<and>
   update_class_error binary32_ops example_metric \<lparr>ncols = 2, rows = [[0, 0]]\<rparr> 7
       \<lparr>ncols = 3, rows = [[0, 0, 0]]\<rparr> \<lparr>ncols = 3, rows = [[0, 0, 0]]\<rparr> \<noteq>
     Inl (UnknownCategory, example_metric)"
  by (simp add: update_class_error_def shapes_pass_def shape_def example_metric_fields)

text \<open>
  Claim C8, amended. For every call of \<^verbatim>\<open>update_class_error\<close> whose arrays pass the
  assertions: when the category id is absent from the table the call fails with
  \<open>UnknownCategory\<close> and the metric object is untouched; when it is present the call
  succeeds. The table the constructor builds from a dictionary has exactly the ids of the
  dictionary as keys and maps each id to its position in the dictionary.
\<close>

theorem update_class_error_category_lookup:
  assumes "shapes_pass pc regressed_flow gt_flow"
  shows "(class_id_to_index_map self class_id = None \<longrightarrow>
            update_class_error ops self pc class_id regressed_flow gt_flow =
              Inl (UnknownCategory, self)) \<and>
         (class_id \<in> dom (class_id_to_index_map self) \<longrightarrow>
            (\<exists>self'. update_class_error ops self pc class_id regressed_flow gt_flow = Inr self')) \<and>
         (\<forall>tbl ss es thr sc. distinct (map fst tbl) \<longrightarrow>
            dom (class_id_to_index_map (init tbl ss es thr sc)) = fst ` set tbl \<and>
            (\<forall>i < length tbl.
               class_id_to_index_map (init tbl ss es thr sc) (fst (tbl ! i)) = Some i))"
proof -
  have a: "class_id_to_index_map self class_id = None \<longrightarrow>
            update_class_error ops self pc class_id regressed_flow gt_flow =
              Inl (UnknownCategory, self)"
    using assms by (simp add: update_class_error_def)
  have b: "class_id \<in> dom (class_id_to_index_map self) \<longrightarrow>
            (\<exists>self'. update_class_error ops self pc class_id regressed_flow gt_flow = Inr self')"
    using assms by (auto simp: update_class_error_def)
  have c: "\<forall>tbl ss es thr sc. distinct (map fst tbl) \<longrightarrow>
            dom (class_id_to_index_map (init tbl ss es thr sc)) = fst ` set tbl \<and>
            (\<forall>i < length tbl.
               class_id_to_index_map (init tbl ss es thr sc) (fst (tbl ! i)) = Some i)"
  proof (intro allI impI conjI)
    fix tbl :: "(int \<times> string) list" and ss es thr sc
    assume d: "distinct (map fst tbl)"
    show "dom (class_id_to_index_map (init tbl ss es thr sc)) = fst ` set tbl"
    proof (rule set_eqI)
      fix k
      show "k \<in> dom (class_id_to_index_map (init tbl ss es thr sc)) \<longleftrightarrow> k \<in> fst ` set tbl"
      proof (cases "k \<in> fst ` set tbl")
        case True
        then obtain i where "i < length tbl" "k = fst (tbl ! i)"
          by (auto simp: in_set_conv_nth)
        with True show ?thesis using init_class_index [OF d, of i ss es thr sc] by auto
      next
        case False
        then show ?thesis using init_class_absent [of k tbl ss es thr sc] by auto
      qed
    qed
    fix i assume "i < length tbl"
    then show "class_id_to_index_map (init tbl ss es thr sc) (fst (tbl ! i)) = Some i"
      by (rule init_class_index [OF d])
  qed
  show ?thesis by (rule conjI [OF a conjI [OF b c]])
qed

text \<open>Claim C8, amended, at the example metric: id 7 is absent, id 1 has index 1.\<close>

theorem update_class_error_category_lookup_witness:
  "shapes_pass \<lparr>ncols = 3, rows = [[0, 0, 0]]\<rparr> \<lparr>ncols = 3, rows = [[0, 0, 0]]\<rparr>
      \<lparr>ncols = 3, rows = [[0, 0, 0]]\<rparr> \<and>
   class_id_to_index_map example_metric 7 = None \<and>
   update_class_error binary32_ops example_metric \<lparr>ncols = 3, rows = [[0, 0, 0]]\<rparr> 7
      \<lparr>ncols = 3, rows = [[0, 0, 0]]\<rparr> \<lparr>ncols = 3, rows = [[0, 0, 0]]\<rparr> =
     Inl (UnknownCategory, example_metric) \<and>
   distinct (map fst [(0::int, ''BACKGROUND''), (1, ''CAR'')]) \<and>
   class_id_to_index_map example_metric (fst ([(0::int, ''BACKGROUND''), (1, ''CAR'')] ! 1)) = Some 1"
proof -
  let ?t = "\<lparr>ncols = 3, rows = [[0, 0, 0]]\<rparr>"
  have h: "shapes_pass ?t ?t ?t" by (simp add: shapes_pass_def shape_def)
  note inst = update_class_error_category_lookup [OF h, of example_metric 7]
  have n: "class_id_to_index_map example_metric 7 = None" by (simp add: example_metric_fields)
  have d: "distinct (map fst [(0::int, ''BACKGROUND''), (1, ''CAR'')])" by simp
  have 1: "update_class_error binary32_ops example_metric ?t 7 ?t ?t = Inl (UnknownCategory, example_metric)"
    using inst [THEN conjunct1] n by simp
  have 2: "class_id_to_index_map example_metric
             (fst ([(0::int, ''BACKGROUND''), (1, ''CAR'')] ! 1)) = Some 1"
    using inst [THEN conjunct2, THEN conjunct2, rule_format, OF d, THEN conjunct2, rule_format,
      of 1 "[0, 5, 10]" "[0, 1]" None None]
    by (simp add: example_metric_def)
  show ?thesis using h n d 1 2 by blast
qed

section \<open>Claim C9: proximity\<close>

text \<open>
  Claim C9. A point is marked close exactly when the maximum of the absolute values of its
  first two coordinates is at most the threshold, which is 35 when the constructor is
  called without one; a point at exactly the threshold is close. The two masks the outer
  loop runs over are complementary at every point. After a successful call the counts of
  the close slice and of the far slice, for a class index, a speed bucket and an error
  bucket, have grown by the number of close and of far points in these buckets, and
  together by the number of all points in these buckets: no point is dropped or counted
  twice along the proximity axis.
\<close>

theorem proximity_partition:
  "(\<forall>i < length (rows pc).
      is_close_mask self pc ! i =
        (norm_inf (take 2 (rows pc ! i)) \<le> close_object_threshold_meters self)) \<and>
   norm_inf (take 2 [x, y, z]) = max \<bar>x\<bar> \<bar>y\<bar> \<and>
   close_object_threshold_meters (init tbl ss es None sc) = 35 \<and>
   (max \<bar>x\<bar> \<bar>y\<bar> = 35 \<longrightarrow>
      is_close_mask (init tbl ss es None sc) \<lparr>ncols = 3, rows = [[x, y, z]]\<rparr> = [True]) \<and>
   (\<forall>i < length (rows pc).
      ([is_close_mask self pc, map Not (is_close_mask self pc)] ! 0 ! i) \<noteq>
      ([is_close_mask self pc, map Not (is_close_mask self pc)] ! 1 ! i)) \<and>
   (\<forall>ops k self' s e.
      shapes_pass pc regressed_flow gt_flow \<and>
      class_id_to_index_map self class_id = Some k \<and>
      update_class_error ops self pc class_id regressed_flow gt_flow = Inr self' \<and>
      s < length (speed_bucket_bounds self) \<and> e < length (epe_bucket_bounds self) \<longrightarrow>
      per_class_bucketed_error_count self' (0, k, s, e) =
        per_class_bucketed_error_count self (0, k, s, e) +
        int (length (filter (\<lambda>p. fst p \<and> in_bucket (speed_bucket_bounds self ! s) (fst (snd p)) \<and>
                                  in_bucket (epe_bucket_bounds self ! e) (snd (snd p)))
                       (points self pc regressed_flow gt_flow))) \<and>
      per_class_bucketed_error_count self' (1, k, s, e) =
        per_class_bucketed_error_count self (1, k, s, e) +
        int (length (filter (\<lambda>p. \<not> fst p \<and> in_bucket (speed_bucket_bounds self ! s) (fst (snd p)) \<and>
                                  in_bucket (epe_bucket_bounds self ! e) (snd (snd p)))
                       (points self pc regressed_flow gt_flow))) \<and>
      (per_class_bucketed_error_count self' (0, k, s, e) -
         per_class_bucketed_error_count self (0, k, s, e)) +
      (per_class_bucketed_error_count self' (1, k, s, e) -
         per_class_bucketed_error_count self (1, k, s, e)) =
        int (length (filter (\<lambda>p. in_bucket (speed_bucket_bounds self ! s) (fst (snd p)) \<and>
                                  in_bucket (epe_bucket_bounds self ! e) (snd (snd p)))
                       (points self pc regressed_flow gt_flow))))"
proof -
  have a: "\<forall>i < length (rows pc).
      is_close_mask self pc ! i =
        (norm_inf (take 2 (rows pc ! i)) \<le> close_object_threshold_meters self)"
    by (simp add: is_close_mask_def)
  have b: "norm_inf (take 2 [x, y, z]) = max \<bar>x\<bar> \<bar>y\<bar>"
    by (simp add: norm_inf_pair numeral_2_eq_2)
  have c: "close_object_threshold_meters (init tbl ss es None sc) = 35"
    by (simp add: init_def)
  have d: "max \<bar>x\<bar> \<bar>y\<bar> = 35 \<longrightarrow>
      is_close_mask (init tbl ss es None sc) \<lparr>ncols = 3, rows = [[x, y, z]]\<rparr> = [True]"
    using b c by (simp add: is_close_mask_def)
  have e: "\<forall>i < length (rows pc).
      ([is_close_mask self pc, map Not (is_close_mask self pc)] ! 0 ! i) \<noteq>
      ([is_close_mask self pc, map Not (is_close_mask self pc)] ! 1 ! i)"
    by (simp add: is_close_mask_def)
  have f: "\<forall>ops k self' s e.
      shapes_pass pc regressed_flow gt_flow \<and>
      class_id_to_index_map self class_id = Some k \<and>
      update_class_error ops self pc class_id regressed_flow gt_flow = Inr self' \<and>
      s < length (speed_bucket_bounds self) \<and> e < length (epe_bucket_bounds self) \<longrightarrow>
      per_class_bucketed_error_count self' (0, k, s, e) =
        per_class_bucketed_error_count self (0, k, s, e) +
        int (length (filter (\<lambda>p. fst p \<and> in_bucket (speed_bucket_bounds self ! s) (fst (snd p)) \<and>
                                  in_bucket (epe_bucket_bounds self ! e) (snd (snd p)))
                       (points self pc regressed_flow gt_flow))) \<and>
      per_class_bucketed_error_count self' (1, k, s, e) =
        per_class_bucketed_error_count self (1, k, s, e) +
        int (length (filter (\<lambda>p. \<not> fst p \<and> in_bucket (speed_bucket_bounds self ! s) (fst (snd p)) \<and>
                                  in_bucket (epe_bucket_bounds self ! e) (snd (snd p)))
                       (points self pc regressed_flow gt_flow))) \<and>
      (per_class_bucketed_error_count self' (0, k, s, e) -
         per_class_bucketed_error_count self (0, k, s, e)) +
      (per_class_bucketed_error_count self' (1, k, s, e) -
         per_class_bucketed_error_count self (1, k, s, e)) =
        int (length (filter (\<lambda>p. in_bucket (speed_bucket_bounds self ! s) (fst (snd p)) \<and>
                                  in_bucket (epe_bucket_bounds self ! e) (snd (snd p)))
                       (points self pc regressed_flow gt_flow)))"
  proof (intro allI impI)
    fix ops k self' s e
    let ?sb = "speed_bucket_bounds self" and ?eb = "epe_bucket_bounds self"
    let ?P = "points self pc regressed_flow gt_flow"
    let ?Q = "\<lambda>p. in_bucket (?sb ! s) (fst (snd p)) \<and> in_bucket (?eb ! e) (snd (snd p))"
    assume h: "shapes_pass pc regressed_flow gt_flow \<and>
      class_id_to_index_map self class_id = Some k \<and>
      update_class_error ops self pc class_id regressed_flow gt_flow = Inr self' \<and>
      s < length ?sb \<and> e < length ?eb"
    then have sp: "shapes_pass pc regressed_flow gt_flow"
      and k: "class_id_to_index_map self class_id = Some k" by simp_all
    have cnt: "per_class_bucketed_error_count self' i =
                 per_class_bucketed_error_count self i + cell_count ?sb ?eb k ?P i" for i
      using h update_class_error_cells [OF sp k, of ops] by auto
    have c0: "cell_count ?sb ?eb k ?P (0, k, s, e) = int (length (filter (\<lambda>p. fst p \<and> ?Q p) ?P))"
      using h by (auto simp: cell_count_def in_cell_def split_def intro!: arg_cong [where f = length] filter_cong)
    have c1: "cell_count ?sb ?eb k ?P (Suc 0, k, s, e) = int (length (filter (\<lambda>p. \<not> fst p \<and> ?Q p) ?P))"
      using h by (auto simp: cell_count_def in_cell_def split_def intro!: arg_cong [where f = length] filter_cong)
    have tot: "int (length (filter (\<lambda>p. fst p \<and> ?Q p) ?P)) + int (length (filter (\<lambda>p. \<not> fst p \<and> ?Q p) ?P))
         = int (length (filter ?Q ?P))"
      using filter_split_flag [of ?Q ?P] by linarith
    show "per_class_bucketed_error_count self' (0, k, s, e) =
        per_class_bucketed_error_count self (0, k, s, e) +
        int (length (filter (\<lambda>p. fst p \<and> ?Q p) ?P)) \<and>
      per_class_bucketed_error_count self' (1, k, s, e) =
        per_class_bucketed_error_count self (1, k, s, e) +
        int (length (filter (\<lambda>p. \<not> fst p \<and> ?Q p) ?P)) \<and>
      (per_class_bucketed_error_count self' (0, k, s, e) -
         per_class_bucketed_error_count self (0, k, s, e)) +
      (per_class_bucketed_error_count self' (1, k, s, e) -
         per_class_bucketed_error_count self (1, k, s, e)) =
        int (length (filter ?Q ?P))"
      using tot by (simp add: cnt c0 c1)
  qed
  show ?thesis
    by (rule conjI [OF a conjI [OF b conjI [OF c conjI [OF d conjI [OF e f]]]]])
qed

text \<open>Claim C9, at a point whose distance is exactly 35 and at the far point of the
  example call.\<close>

theorem proximity_partition_witness:
  "max \<bar>35::real\<bar> \<bar>- 2\<bar> = 35 \<and>
   is_close_mask (init [] [] [] None None) \<lparr>ncols = 3, rows = [[35, - 2, 7]]\<rparr> = [True] \<and>
   (1::nat) < length (rows example_pc) \<and>
   is_close_mask example_metric example_pc ! 1 = False \<and>
   [is_close_mask example_metric example_pc, map Not (is_close_mask example_metric example_pc)] ! 1 ! 1"
proof -
  have h: "max \<bar>35::real\<bar> \<bar>- 2\<bar> = 35" by simp
  have l: "(1::nat) < length (rows example_pc)" by (simp add: example_pc_def)
  note inst = proximity_partition [of example_pc example_metric 35 "- 2" 7 "[]" "[]" "[]" None]
  have 1: "is_close_mask (init [] [] [] None None) \<lparr>ncols = 3, rows = [[35, - 2, 7]]\<rparr> = [True]"
    using inst [THEN conjunct2, THEN conjunct2, THEN conjunct2, THEN conjunct1] h by simp
  have 2: "is_close_mask example_metric example_pc ! 1 = False"
    using inst [THEN conjunct1, rule_format, OF l]
    by (simp add: example_pc_def example_metric_fields norm_inf_pair)
  have 3: "[is_close_mask example_metric example_pc,
            map Not (is_close_mask example_metric example_pc)] ! 1 ! 1"
    using inst [THEN conjunct2, THEN conjunct2, THEN conjunct2, THEN conjunct2, THEN conjunct1,
        rule_format, OF l] 2
    by simp
  show ?thesis using h l 1 2 3 by blast
qed

section \<open>Claim C10: a call with no points\<close>

text \<open>
  Claim C10. A call of \<^verbatim>\<open>update_class_error\<close> with zero points, that is with a point
  array, a predicted-flow array and a ground-truth-flow array of shape \<open>(0, 3)\<close>, and
  with a category id of the table, succeeds and returns the metric object as it was: the
  error sums, the error counts, the total forward time and the total forward count are
  all unchanged. This holds with every arithmetic for which zero is neutral, so with exact
  and with binary32 arithmetic: each iteration of the loops adds the sum of no number, 0,
  to its cell.
\<close>

theorem update_class_error_no_points:
  assumes "neutral_zero ops"
    and "shape pc = (0, 3)" and "shape regressed_flow = (0, 3)" and "shape gt_flow = (0, 3)"
    and "class_id \<in> dom (class_id_to_index_map self)"
  shows "update_class_error ops self pc class_id regressed_flow gt_flow = Inr self"
proof -
  from assms(5) obtain k where k: "class_id_to_index_map self class_id = Some k" by auto
  have sp: "shapes_pass pc regressed_flow gt_flow"
    using assms(2-4) by (simp add: shapes_pass_def)
  have "rows pc = []" "rows gt_flow = []" "rows regressed_flow = []"
    using assms(2-4) by (simp_all add: shape_def)
  then have P: "points self pc regressed_flow gt_flow = []"
    by (simp add: points_def is_close_mask_def)
  have s: "(\<lambda>i. if addressed (speed_bucket_bounds self) (epe_bucket_bounds self) k i
                 then fadd ops (per_class_bucketed_error_sum self i)
                        (fsum ops (cell_errors (speed_bucket_bounds self) (epe_bucket_bounds self)
                                     k [] i))
                 else per_class_bucketed_error_sum self i) = per_class_bucketed_error_sum self"
    using assms(1) by (auto simp: fun_eq_iff neutral_zero_def)
  show ?thesis
    unfolding update_class_error_cells [OF sp k] P s
    by (simp add: cell_count_Nil)
qed

text \<open>Claim C10, at the example metric with binary32 arithmetic.\<close>

theorem update_class_error_no_points_witness:
  "neutral_zero binary32_ops \<and>
   shape \<lparr>ncols = 3, rows = []\<rparr> = (0, 3) \<and>
   1 \<in> dom (class_id_to_index_map example_metric) \<and>
   update_class_error binary32_ops example_metric \<lparr>ncols = 3, rows = []\<rparr> 1
      \<lparr>ncols = 3, rows = []\<rparr> \<lparr>ncols = 3, rows = []\<rparr> = Inr example_metric"
proof -
  have s: "shape \<lparr>ncols = 3, rows = []\<rparr> = (0, 3)"
    by (simp add: shape_def)
  have d: "1 \<in> dom (class_id_to_index_map example_metric)"
    by (simp add: example_metric_def init_def index_maps_def index_step_pair)
  show ?thesis
    using s d neutral_zero_binary32
      update_class_error_no_points [OF neutral_zero_binary32 s s s d]
    by simp
qed

end
